theory Spec2Isabelle
  imports Main "HOL-Library.Sublist" "HOL-Library.AList"
begin

section \<open>String primitives used by the module loader\<close>

text \<open>
  \<^verbatim>\<open>String.prototype.split(separator)\<close> for a non-empty separator string: the pieces
  between the non-overlapping occurrences of the separator, found from the left. The
  result always has at least one piece. The code only splits on \<^verbatim>\<open>':::'\<close>,
  \<^verbatim>\<open>'.'\<close> and \<^verbatim>\<open>'/'\<close>.
\<close>

function split_acc :: "string \<Rightarrow> string \<Rightarrow> string \<Rightarrow> string list" where
  "split_acc sep acc [] = [rev acc]"
| "split_acc sep acc (c # cs) =
     (if sep \<noteq> [] \<and> prefix sep (c # cs)
      then rev acc # split_acc sep [] (drop (length sep) (c # cs))
      else split_acc sep (c # acc) cs)"
  by pat_completeness auto
termination
  by (relation "measure (\<lambda>(sep, acc, s). length s)") auto

definition js_split :: "string \<Rightarrow> string \<Rightarrow> string list" where
  "js_split sep s = split_acc sep [] s"

text \<open>\<^verbatim>\<open>xs.shift() || ''\<close>: the first piece, the empty string when there is none.\<close>

definition shift_or_empty :: "string list \<Rightarrow> string" where
  "shift_or_empty xs = (case xs of [] \<Rightarrow> [] | x # _ \<Rightarrow> x)"

text \<open>\<^verbatim>\<open>xs.pop() || ''\<close>: the last piece, the empty string when there is none.\<close>

definition pop_or_empty :: "string list \<Rightarrow> string" where
  "pop_or_empty xs = (case rev xs of [] \<Rightarrow> [] | x # _ \<Rightarrow> x)"

text \<open>The second element of a destructured array with the default \<^verbatim>\<open>''\<close>.\<close>

definition second_or_empty :: "string list \<Rightarrow> string" where
  "second_or_empty xs = (case xs of x # y # _ \<Rightarrow> y | _ \<Rightarrow> [])"

text \<open>\<^verbatim>\<open>a.includes(b)\<close> on strings is \<^term>\<open>sublist b a\<close>.\<close>

definition str_includes :: "string \<Rightarrow> string \<Rightarrow> bool" where
  "str_includes a b = sublist b a"

section \<open>Path utilities\<close>

text \<open>
  \<^verbatim>\<open>String.prototype.toLowerCase\<close>, on the code units a \<^typ>\<open>char\<close> can hold
  (U+0000 to U+00FF): the letters A to Z and the capital letters of the Latin-1
  supplement (U+00C0 to U+00DE, without the multiplication sign U+00D7) move up by
  \<open>0x20\<close>, every other code unit stays.
\<close>

definition upperCaseCodeUnits :: string where
  "upperCaseCodeUnits =
     ''ABCDEFGHIJKLMNOPQRSTUVWXYZ'' @
     [CHR 0xC0, CHR 0xC1, CHR 0xC2, CHR 0xC3, CHR 0xC4, CHR 0xC5, CHR 0xC6, CHR 0xC7,
      CHR 0xC8, CHR 0xC9, CHR 0xCA, CHR 0xCB, CHR 0xCC, CHR 0xCD, CHR 0xCE, CHR 0xCF,
      CHR 0xD0, CHR 0xD1, CHR 0xD2, CHR 0xD3, CHR 0xD4, CHR 0xD5, CHR 0xD6,
      CHR 0xD8, CHR 0xD9, CHR 0xDA, CHR 0xDB, CHR 0xDC, CHR 0xDD, CHR 0xDE]"

definition lowerCaseCodeUnits :: string where
  "lowerCaseCodeUnits =
     ''abcdefghijklmnopqrstuvwxyz'' @
     [CHR 0xE0, CHR 0xE1, CHR 0xE2, CHR 0xE3, CHR 0xE4, CHR 0xE5, CHR 0xE6, CHR 0xE7,
      CHR 0xE8, CHR 0xE9, CHR 0xEA, CHR 0xEB, CHR 0xEC, CHR 0xED, CHR 0xEE, CHR 0xEF,
      CHR 0xF0, CHR 0xF1, CHR 0xF2, CHR 0xF3, CHR 0xF4, CHR 0xF5, CHR 0xF6,
      CHR 0xF8, CHR 0xF9, CHR 0xFA, CHR 0xFB, CHR 0xFC, CHR 0xFD, CHR 0xFE]"

definition toLowerCodeUnit :: "char \<Rightarrow> char" where
  "toLowerCodeUnit c =
     (case map_of (zip upperCaseCodeUnits lowerCaseCodeUnits) c of None \<Rightarrow> c | Some l \<Rightarrow> l)"

definition toLowerCase :: "string \<Rightarrow> string" where
  "toLowerCase x = map toLowerCodeUnit x"

text \<open>
  The character class of \<^verbatim>\<open>fileNameLowerCaseRegExp\<close> in the utilities module: a code
  unit matches when it is none of \<^verbatim>\<open>a-z\<close>, \<^verbatim>\<open>0-9\<close>, backslash, \<^verbatim>\<open>/ : - _ .\<close>, space
  and U+00DF (U+0130 and U+0131, which the class also leaves out, are no
  \<^typ>\<open>char\<close>).
\<close>

definition fileNameLowerCaseRegExp :: "char \<Rightarrow> bool" where
  "fileNameLowerCaseRegExp c =
     (c \<notin> set (''abcdefghijklmnopqrstuvwxyz0123456789/:-_. '' @ [CHR 0x5C, CHR 0xDF]))"

text \<open>
  \<^verbatim>\<open>x.replace(fileNameLowerCaseRegExp, f)\<close>: every maximal run of matching code units
  is replaced by \<open>f\<close> of the run. \<open>matched\<close> holds the run read so far, last code unit
  first.
\<close>

fun replaceRuns :: "(string \<Rightarrow> string) \<Rightarrow> string \<Rightarrow> string \<Rightarrow> string" where
  "replaceRuns f matched [] = (if matched = [] then [] else f (rev matched))"
| "replaceRuns f matched (c # cs) =
     (if fileNameLowerCaseRegExp c then replaceRuns f (c # matched) cs
      else (if matched = [] then [] else f (rev matched)) @ c # replaceRuns f [] cs)"

text \<open>
  \<^verbatim>\<open>toFileNameLowerCase\<close>, \<^verbatim>\<open>createGetCanonicalFileName\<close> and
  \<^verbatim>\<open>getLastPartOfPath\<close> of the utilities module.
\<close>

definition toFileNameLowerCase :: "string \<Rightarrow> string" where
  "toFileNameLowerCase x =
     (if list_ex fileNameLowerCaseRegExp x then replaceRuns toLowerCase [] x else x)"

definition createGetCanonicalFileName :: "bool \<Rightarrow> string \<Rightarrow> string" where
  "createGetCanonicalFileName useCaseSensitiveFileNames =
     (if useCaseSensitiveFileNames then (\<lambda>x. x) else toFileNameLowerCase)"

definition getLastPartOfPath :: "string \<Rightarrow> string" where
  "getLastPartOfPath path =
     pop_or_empty
       (js_split ''/'' (map (\<lambda>c. if c = CHR 0x5C then CHR ''/'' else c) path))"

section \<open>File collections\<close>

text \<open>
  Modelled from the spec: \<^verbatim>\<open>FileMap\<close> and \<^verbatim>\<open>FileSet\<close> come from the
  file-collection module, outside the module loader. They are a map and
  a set whose keys are canonical file names: every operation canonicalises the path it
  is given, and \<^verbatim>\<open>forEach\<close> hands out the stored (canonical) keys. The map keeps
  its entries in insertion order, as a JavaScript \<^verbatim>\<open>Map\<close> does.
\<close>

type_synonym 'v FileMap = "(string \<times> 'v) list"
type_synonym FileSet = "string set"

definition FileMap_get :: "bool \<Rightarrow> 'v FileMap \<Rightarrow> string \<Rightarrow> 'v option" where
  "FileMap_get cs m filePath = map_of m (createGetCanonicalFileName cs filePath)"

definition FileMap_has :: "bool \<Rightarrow> 'v FileMap \<Rightarrow> string \<Rightarrow> bool" where
  "FileMap_has cs m filePath = (map_of m (createGetCanonicalFileName cs filePath) \<noteq> None)"

definition FileMap_set :: "bool \<Rightarrow> 'v FileMap \<Rightarrow> string \<Rightarrow> 'v \<Rightarrow> 'v FileMap" where
  "FileMap_set cs m filePath v = AList.update (createGetCanonicalFileName cs filePath) v m"

definition FileMap_delete :: "bool \<Rightarrow> 'v FileMap \<Rightarrow> string \<Rightarrow> 'v FileMap" where
  "FileMap_delete cs m filePath = AList.delete (createGetCanonicalFileName cs filePath) m"

text \<open>
  \<^verbatim>\<open>forEach\<close> walks the entries in insertion order and skips an entry that the callback
  has removed before the walk reaches it. The callback works on a state \<open>'s\<close> that
  holds the map; \<open>cur\<close> reads the map back out of the state.
\<close>

fun FileMap_forEach ::
  "('s \<Rightarrow> 'v FileMap) \<Rightarrow> ('v \<Rightarrow> string \<Rightarrow> 's \<Rightarrow> 's) \<Rightarrow> 'v FileMap \<Rightarrow> 's \<Rightarrow> 's" where
  "FileMap_forEach cur f [] s = s"
| "FileMap_forEach cur f ((key, val) # rest) s =
     FileMap_forEach cur f rest (if map_of (cur s) key = Some val then f val key s else s)"

definition FileSet_add :: "bool \<Rightarrow> FileSet \<Rightarrow> string \<Rightarrow> FileSet" where
  "FileSet_add cs fs filePath = insert (createGetCanonicalFileName cs filePath) fs"

definition FileSet_has :: "bool \<Rightarrow> FileSet \<Rightarrow> string \<Rightarrow> bool" where
  "FileSet_has cs fs filePath = (createGetCanonicalFileName cs filePath \<in> fs)"

section \<open>The environment of the loader\<close>

text \<open>
  \<^verbatim>\<open>ts.ResolvedModuleFull\<close>, with the three fields the loader reads and writes.
\<close>

record ResolvedModule =
  resolvedFileName :: string
  extension :: string
  isExternalLibraryImport :: "bool option"

text \<open>
  What the host compiler returns from \<^verbatim>\<open>resolveModuleName\<close>: the resolved module, if
  any, and the candidate locations it probed in vain.
\<close>

record HostResolution =
  resolvedModule :: "ResolvedModule option"
  failedLookupLocations :: "string list option"

datatype ResolutionMode = CommonJS | ESNext

text \<open>
  Source files and compiler options are opaque to the loader: it only passes them on to
  the compiler. They are handles here.
\<close>

type_synonym SourceFile = nat
type_synonym CompilerOptions = nat

text \<open>
  Everything the loader takes from its collaborators. The two case-sensitivity flags are
  \<^verbatim>\<open>ts.sys.useCaseSensitiveFileNames\<close> (read by the resolution cache) and
  \<^verbatim>\<open>tsSystem.useCaseSensitiveFileNames\<close> (read by the failed-lookup tracker). The path
  classifiers, the virtual file system and the snapshot provider
  are defined outside the module loader and are parameters here;
  \<open>snapshotExtension\<close> stands for
  \<^verbatim>\<open>getExtensionFromScriptKind(getSnapshot(fileName).scriptKind)\<close>. The host resolution
  algorithm is an oracle: \<open>tsResolveModuleName\<close> gives the identity of the result object
  it returns and \<open>hostObject\<close> what that object holds; the compiler hands the same
  object out again when it answers from its own cache. A redirected project reference
  is represented by the compiler options of its command line.
\<close>

record env =
  sysCaseSensitive :: bool
  hostCaseSensitive :: bool
  isSvelteFilePath :: "string \<Rightarrow> bool"
  isVirtualSvelteFilePath :: "string \<Rightarrow> bool"
  ensureRealSvelteFilePath :: "string \<Rightarrow> string"
  getRealSveltePathIfExists :: "string \<Rightarrow> string"
  snapshotExtension :: "string \<Rightarrow> string"
  getModeForResolutionAtIndex :: "SourceFile \<Rightarrow> nat \<Rightarrow> CompilerOptions \<Rightarrow> ResolutionMode option"
  tsResolveModuleName ::
    "string \<Rightarrow> string \<Rightarrow> CompilerOptions option \<Rightarrow> ResolutionMode option \<Rightarrow> nat"
  hostObject :: "nat \<Rightarrow> HostResolution"

section \<open>The resolution cache\<close>

definition CACHE_KEY_SEPARATOR :: string where
  "CACHE_KEY_SEPARATOR = '':::''"

record ModuleResolutionCache =
  cache :: "ResolvedModule option FileMap"
  pendingInvalidations :: FileSet

definition newModuleResolutionCache :: ModuleResolutionCache where
  "newModuleResolutionCache = \<lparr>cache = [], pendingInvalidations = {}\<rparr>"

definition getCanonicalFileName :: "env \<Rightarrow> string \<Rightarrow> string" where
  "getCanonicalFileName e = createGetCanonicalFileName (sysCaseSensitive e)"

definition getKey :: "env \<Rightarrow> string \<Rightarrow> string \<Rightarrow> string" where
  "getKey e moduleName containingFile =
     containingFile @ CACHE_KEY_SEPARATOR @ ensureRealSvelteFilePath e moduleName"

definition moduleCache_get ::
  "env \<Rightarrow> ModuleResolutionCache \<Rightarrow> string \<Rightarrow> string \<Rightarrow> ResolvedModule option" where
  "moduleCache_get e mc moduleName containingFile =
     (case FileMap_get (sysCaseSensitive e) (cache mc) (getKey e moduleName containingFile) of
        None \<Rightarrow> None
      | Some val \<Rightarrow> val)"

definition moduleCache_has :: "env \<Rightarrow> ModuleResolutionCache \<Rightarrow> string \<Rightarrow> string \<Rightarrow> bool" where
  "moduleCache_has e mc moduleName containingFile =
     FileMap_has (sysCaseSensitive e) (cache mc) (getKey e moduleName containingFile)"

definition moduleCache_set ::
  "env \<Rightarrow> ModuleResolutionCache \<Rightarrow> string \<Rightarrow> string \<Rightarrow> ResolvedModule option
     \<Rightarrow> ModuleResolutionCache" where
  "moduleCache_set e mc moduleName containingFile resolved =
     mc\<lparr>cache :=
          FileMap_set (sysCaseSensitive e) (cache mc) (getKey e moduleName containingFile) resolved\<rparr>"

text \<open>The two parts of a key that the invalidation callbacks read back out of it.\<close>

definition containingFileOfKey :: "string \<Rightarrow> string" where
  "containingFileOfKey key = shift_or_empty (js_split CACHE_KEY_SEPARATOR key)"

definition moduleNameOfKey :: "string \<Rightarrow> string" where
  "moduleNameOfKey key = second_or_empty (js_split CACHE_KEY_SEPARATOR key)"

definition delete_visit ::
  "env \<Rightarrow> string \<Rightarrow> ResolvedModule option \<Rightarrow> string \<Rightarrow> ModuleResolutionCache
     \<Rightarrow> ModuleResolutionCache" where
  "delete_visit e resolvedModuleName val key mc =
     (case val of
        None \<Rightarrow> mc
      | Some r \<Rightarrow>
          if getCanonicalFileName e (resolvedFileName r) = resolvedModuleName
          then mc\<lparr>cache := FileMap_delete (sysCaseSensitive e) (cache mc) key,
                  pendingInvalidations :=
                    FileSet_add (sysCaseSensitive e) (pendingInvalidations mc)
                      (containingFileOfKey key)\<rparr>
          else mc)"

definition moduleCache_delete ::
  "env \<Rightarrow> ModuleResolutionCache \<Rightarrow> string \<Rightarrow> ModuleResolutionCache" where
  "moduleCache_delete e mc resolvedModuleName =
     FileMap_forEach cache
       (delete_visit e (getCanonicalFileName e resolvedModuleName)) (cache mc) mc"

definition fileNameWithoutEnding :: "env \<Rightarrow> string \<Rightarrow> string" where
  "fileNameWithoutEnding e path =
     shift_or_empty (js_split ''.'' (getLastPartOfPath (getCanonicalFileName e path)))"

definition deleteUnresolved_visit ::
  "env \<Rightarrow> string \<Rightarrow> ResolvedModule option \<Rightarrow> string \<Rightarrow> ModuleResolutionCache
     \<Rightarrow> ModuleResolutionCache" where
  "deleteUnresolved_visit e stem val key mc =
     (case val of
        Some r \<Rightarrow> mc
      | None \<Rightarrow>
          if str_includes (moduleNameOfKey key) stem
          then mc\<lparr>cache := FileMap_delete (sysCaseSensitive e) (cache mc) key,
                  pendingInvalidations :=
                    FileSet_add (sysCaseSensitive e) (pendingInvalidations mc)
                      (containingFileOfKey key)\<rparr>
          else mc)"

definition moduleCache_deleteUnresolvedResolutionsFromCache ::
  "env \<Rightarrow> ModuleResolutionCache \<Rightarrow> string \<Rightarrow> ModuleResolutionCache" where
  "moduleCache_deleteUnresolvedResolutionsFromCache e mc path =
     FileMap_forEach cache
       (deleteUnresolved_visit e (fileNameWithoutEnding e path)) (cache mc) mc"

definition moduleCache_clearPendingInvalidations ::
  "ModuleResolutionCache \<Rightarrow> ModuleResolutionCache" where
  "moduleCache_clearPendingInvalidations mc = mc\<lparr>pendingInvalidations := {}\<rparr>"

definition oneOfResolvedModuleChanged :: "env \<Rightarrow> ModuleResolutionCache \<Rightarrow> string \<Rightarrow> bool" where
  "oneOfResolvedModuleChanged e mc path =
     FileSet_has (sysCaseSensitive e) (pendingInvalidations mc) path"

section \<open>The module loader\<close>

text \<open>
  Result objects are shared by reference: the loader adds a \<^verbatim>\<open>files\<close> field to the
  objects the host returns, keeps them in a \<^verbatim>\<open>Set\<close> by identity, and copies them with
  a spread, which copies the reference to the \<^verbatim>\<open>files\<close> set. So objects and sets
  live in a store. A reference is either an object of the host or a copy the loader made
  in \<^verbatim>\<open>resolveModuleName\<close>; \<open>filesField\<close> holds the \<^verbatim>\<open>files\<close> field of every
  object, \<open>fileSet\<close> the contents of every \<^verbatim>\<open>Set\<close> the loader created.
  The caches of the virtual file system and of the compiler, and the type-reference
  cache, are not part of this state: what they change is what the oracles of the
  environment answer.
\<close>

datatype ObjectRef = HostObject nat | RemappedObject nat

record loader =
  moduleCache :: ModuleResolutionCache
  remappedObject :: "nat \<Rightarrow> HostResolution"
  nextRemapped :: nat
  filesField :: "ObjectRef \<Rightarrow> nat option"
  fileSet :: "nat \<Rightarrow> string set"
  nextFileSet :: nat
  resolutionWithFailedLookup :: "ObjectRef list"
  failedLocationInvalidated :: FileSet
  pendingFailedLocationCheck :: FileSet

definition createSvelteModuleLoader :: loader where
  "createSvelteModuleLoader =
     \<lparr>moduleCache = newModuleResolutionCache,
      remappedObject = (\<lambda>_. \<lparr>resolvedModule = None, failedLookupLocations = None\<rparr>),
      nextRemapped = 0,
      filesField = (\<lambda>_. None),
      fileSet = (\<lambda>_. {}),
      nextFileSet = 0,
      resolutionWithFailedLookup = [],
      failedLocationInvalidated = {},
      pendingFailedLocationCheck = {}\<rparr>"

definition objectOf :: "env \<Rightarrow> loader \<Rightarrow> ObjectRef \<Rightarrow> HostResolution" where
  "objectOf e s r = (case r of HostObject i \<Rightarrow> hostObject e i | RemappedObject i \<Rightarrow> remappedObject s i)"

definition impliedNodeFormatResolver_resolve ::
  "env \<Rightarrow> string \<Rightarrow> nat \<Rightarrow> SourceFile option \<Rightarrow> CompilerOptions \<Rightarrow> ResolutionMode option" where
  "impliedNodeFormatResolver_resolve e importPath importIdxInFile sourceFile compilerOptions =
     (if isSvelteFilePath e importPath then None
      else case sourceFile of
             None \<Rightarrow> None
           | Some sf \<Rightarrow> getModeForResolutionAtIndex e sf importIdxInFile compilerOptions)"

definition resolveModuleName ::
  "env \<Rightarrow> loader \<Rightarrow> string \<Rightarrow> string \<Rightarrow> SourceFile option \<Rightarrow> nat \<Rightarrow> CompilerOptions option
     \<Rightarrow> CompilerOptions \<Rightarrow> ObjectRef \<times> loader" where
  "resolveModuleName e s name containingFile containingSourceFile index redirectedReference
       option =
     (let mode = impliedNodeFormatResolver_resolve e name index containingSourceFile
                   (case redirectedReference of Some opts \<Rightarrow> opts | None \<Rightarrow> option);
          host = tsResolveModuleName e name containingFile redirectedReference mode;
          resolvedModuleWithFailedLookup = hostObject e host
      in case resolvedModule resolvedModuleWithFailedLookup of
           None \<Rightarrow> (HostObject host, s)
         | Some rm \<Rightarrow>
             if \<not> isVirtualSvelteFilePath e (resolvedFileName rm) then (HostObject host, s)
             else
               let real = getRealSveltePathIfExists e (resolvedFileName rm)
               in if \<not> isSvelteFilePath e real then (HostObject host, s)
                  else
                    let resolvedSvelteModule =
                          \<lparr>resolvedFileName = real,
                           extension = snapshotExtension e real,
                           isExternalLibraryImport = isExternalLibraryImport rm\<rparr>;
                        n = nextRemapped s
                    in (RemappedObject n,
                        s\<lparr>remappedObject := (remappedObject s)
                             (n := resolvedModuleWithFailedLookup
                                     \<lparr>resolvedModule := Some resolvedSvelteModule\<rparr>),
                          nextRemapped := Suc n,
                          filesField := (filesField s)
                             (RemappedObject n := filesField s (HostObject host))\<rparr>))"

definition cacheResolutionWithFailedLookup ::
  "env \<Rightarrow> loader \<Rightarrow> ObjectRef \<Rightarrow> string \<Rightarrow> loader" where
  "cacheResolutionWithFailedLookup e s r containingFile =
     (case failedLookupLocations (objectOf e s r) of
        None \<Rightarrow> s
      | Some locations \<Rightarrow>
          if locations = [] then s
          else
            let (a, s1) = (case filesField s r of
                             Some a \<Rightarrow> (a, s)
                           | None \<Rightarrow>
                               (nextFileSet s,
                                s\<lparr>filesField := (filesField s)(r := Some (nextFileSet s)),
                                  fileSet := (fileSet s)(nextFileSet s := {}),
                                  nextFileSet := Suc (nextFileSet s)\<rparr>));
                s2 = s1\<lparr>fileSet := (fileSet s1)(a := insert containingFile (fileSet s1 a))\<rparr>
            in s2\<lparr>resolutionWithFailedLookup :=
                    (if r \<in> set (resolutionWithFailedLookup s2)
                     then resolutionWithFailedLookup s2
                     else resolutionWithFailedLookup s2 @ [r])\<rparr>)"

text \<open>The callback of \<^verbatim>\<open>moduleNames.map\<close> in \<^verbatim>\<open>resolveModuleNames\<close>.\<close>

definition resolveOne ::
  "env \<Rightarrow> string \<Rightarrow> CompilerOptions option \<Rightarrow> CompilerOptions \<Rightarrow> SourceFile option
     \<Rightarrow> string \<Rightarrow> nat \<Rightarrow> loader \<Rightarrow> ResolvedModule option \<times> loader" where
  "resolveOne e containingFile redirectedReference options containingSourceFile moduleName
       index s =
     (if moduleCache_has e (moduleCache s) moduleName containingFile
      then (moduleCache_get e (moduleCache s) moduleName containingFile, s)
      else
        let (r, s1) = resolveModuleName e s moduleName containingFile containingSourceFile
                        index redirectedReference options;
            s2 = cacheResolutionWithFailedLookup e s1 r containingFile;
            resolved = resolvedModule (objectOf e s2 r)
        in (resolved,
            s2\<lparr>moduleCache :=
                 moduleCache_set e (moduleCache s2) moduleName containingFile resolved\<rparr>))"

fun mapFrom ::
  "(string \<Rightarrow> nat \<Rightarrow> loader \<Rightarrow> ResolvedModule option \<times> loader) \<Rightarrow> nat \<Rightarrow> string list \<Rightarrow> loader
     \<Rightarrow> ResolvedModule option list \<times> loader" where
  "mapFrom f index [] s = ([], s)"
| "mapFrom f index (moduleName # rest) s =
     (let (r, s1) = f moduleName index s;
          (rs, s2) = mapFrom f (Suc index) rest s1
      in (r # rs, s2))"

text \<open>The parameter \<^verbatim>\<open>_reusedNames\<close> is not read by the source and is left out.\<close>

definition resolveModuleNames ::
  "env \<Rightarrow> loader \<Rightarrow> string list \<Rightarrow> string \<Rightarrow> CompilerOptions option \<Rightarrow> CompilerOptions
     \<Rightarrow> SourceFile option \<Rightarrow> ResolvedModule option list \<times> loader" where
  "resolveModuleNames e s moduleNames containingFile redirectedReference options
       containingSourceFile =
     mapFrom (resolveOne e containingFile redirectedReference options containingSourceFile)
       0 moduleNames s"

definition deleteFromModuleCache :: "env \<Rightarrow> loader \<Rightarrow> string \<Rightarrow> loader" where
  "deleteFromModuleCache e s path = s\<lparr>moduleCache := moduleCache_delete e (moduleCache s) path\<rparr>"

definition deleteUnresolvedResolutionsFromCache :: "env \<Rightarrow> loader \<Rightarrow> string \<Rightarrow> loader" where
  "deleteUnresolvedResolutionsFromCache e s path =
     s\<lparr>moduleCache := moduleCache_deleteUnresolvedResolutionsFromCache e (moduleCache s) path,
       pendingFailedLocationCheck :=
         FileSet_add (hostCaseSensitive e) (pendingFailedLocationCheck s) path\<rparr>"

definition mightHaveInvalidatedResolutions :: "env \<Rightarrow> loader \<Rightarrow> string \<Rightarrow> bool" where
  "mightHaveInvalidatedResolutions e s path =
     (oneOfResolvedModuleChanged e (moduleCache s) path \<or>
      FileSet_has (hostCaseSensitive e) (failedLocationInvalidated s) path)"

definition clearPendingInvalidations :: "loader \<Rightarrow> loader" where
  "clearPendingInvalidations s =
     s\<lparr>moduleCache := moduleCache_clearPendingInvalidations (moduleCache s),
       failedLocationInvalidated := {},
       pendingFailedLocationCheck := {}\<rparr>"

text \<open>
  The \<^verbatim>\<open>for\<close> loop over the failed lookup locations of one tracked object: at the first
  location that is pending, the cache entries for the resolved file are deleted, every
  file of the object's \<^verbatim>\<open>files\<close> set is added to \<^verbatim>\<open>failedLocationInvalidated\<close>, and
  the loop breaks.
\<close>

fun checkLocations :: "env \<Rightarrow> ResolvedModule \<Rightarrow> string set \<Rightarrow> string list \<Rightarrow> loader \<Rightarrow> loader" where
  "checkLocations e rm files [] s = s"
| "checkLocations e rm files (location # rest) s =
     (if FileSet_has (hostCaseSensitive e) (pendingFailedLocationCheck s) location
      then s\<lparr>moduleCache := moduleCache_delete e (moduleCache s) (resolvedFileName rm),
             failedLocationInvalidated :=
               failedLocationInvalidated s \<union>
                 createGetCanonicalFileName (hostCaseSensitive e) ` files\<rparr>
      else checkLocations e rm files rest s)"

definition invalidate_visit :: "env \<Rightarrow> ObjectRef \<Rightarrow> loader \<Rightarrow> loader" where
  "invalidate_visit e r s =
     (case resolvedModule (objectOf e s r) of
        None \<Rightarrow> s
      | Some rm \<Rightarrow>
          (case filesField s r of
             None \<Rightarrow> s
           | Some a \<Rightarrow>
               (case failedLookupLocations (objectOf e s r) of
                  None \<Rightarrow> s
                | Some locations \<Rightarrow> checkLocations e rm (fileSet s a) locations s)))"

definition invalidateFailedLocationResolution :: "env \<Rightarrow> loader \<Rightarrow> loader" where
  "invalidateFailedLocationResolution e s =
     (fold (invalidate_visit e) (resolutionWithFailedLookup s) s)
       \<lparr>pendingFailedLocationCheck := {}\<rparr>"

text \<open>
  The calls the owning session makes, each with the environment it runs in (the file
  system and the answers of the host change between calls).
\<close>

datatype event =
    ResolveModuleNames "string list" string "CompilerOptions option" CompilerOptions
      "SourceFile option"
  | DeleteFromModuleCache string
  | DeleteUnresolvedResolutionsFromCache string
  | InvalidateFailedLocationResolution
  | ClearPendingInvalidations

fun apply_event :: "env \<times> event \<Rightarrow> loader \<Rightarrow> loader" where
  "apply_event (e, ResolveModuleNames moduleNames containingFile redirected options sf) s =
     snd (resolveModuleNames e s moduleNames containingFile redirected options sf)"
| "apply_event (e, DeleteFromModuleCache path) s = deleteFromModuleCache e s path"
| "apply_event (e, DeleteUnresolvedResolutionsFromCache path) s =
     deleteUnresolvedResolutionsFromCache e s path"
| "apply_event (e, InvalidateFailedLocationResolution) s =
     invalidateFailedLocationResolution e s"
| "apply_event (e, ClearPendingInvalidations) s = clearPendingInvalidations s"

definition run :: "(env \<times> event) list \<Rightarrow> loader \<Rightarrow> loader" where
  "run evs s = fold apply_event evs s"

section \<open>Notions used in the statements\<close>

text \<open>
  A containing file is free of the separator when the first \<^verbatim>\<open>':::'\<close> of every key
  built from it is the one \<^verbatim>\<open>getKey\<close> puts in: it contains no \<^verbatim>\<open>':::'\<close> and does
  not end in a colon.
\<close>

fun separator_free :: "string \<Rightarrow> bool" where
  "separator_free [] = True"
| "separator_free (c # cs) =
     (\<not> prefix CACHE_KEY_SEPARATOR (c # cs @ CACHE_KEY_SEPARATOR) \<and> separator_free cs)"

text \<open>What \<^verbatim>\<open>toFileNameLowerCase\<close> does to one code unit.\<close>

definition foldChar :: "char \<Rightarrow> char" where
  "foldChar c = (if fileNameLowerCaseRegExp c then toLowerCodeUnit c else c)"

text \<open>
  The shape of every cache the operations build: the stored keys are distinct and
  canonical.
\<close>

definition cache_wf :: "env \<Rightarrow> ModuleResolutionCache \<Rightarrow> bool" where
  "cache_wf e mc =
     (distinct (map fst (cache mc)) \<and>
      list_all (\<lambda>(key, val). getCanonicalFileName e key = key) (cache mc))"

text \<open>A cached value is a record that resolves to \<open>path\<close>, up to case normalisation.\<close>

definition resolvesTo :: "env \<Rightarrow> string \<Rightarrow> ResolvedModule option \<Rightarrow> bool" where
  "resolvesTo e path val =
     (case val of
        None \<Rightarrow> False
      | Some r \<Rightarrow> getCanonicalFileName e (resolvedFileName r) = getCanonicalFileName e path)"

text \<open>A cache entry is confirmed unresolved and its specifier text contains \<open>stem\<close>.\<close>

definition unresolvedMatching :: "string \<Rightarrow> string \<Rightarrow> ResolvedModule option \<Rightarrow> bool" where
  "unresolvedMatching stem key val = (val = None \<and> str_includes (moduleNameOfKey key) stem)"

text \<open>The canonical containing files of the entries of a cache that satisfy \<open>P\<close>.\<close>

definition containingFilesWhere ::
  "env \<Rightarrow> (string \<Rightarrow> ResolvedModule option \<Rightarrow> bool) \<Rightarrow> ResolvedModule option FileMap \<Rightarrow> string set" where
  "containingFilesWhere e P m =
     set (map (\<lambda>(key, val). getCanonicalFileName e (containingFileOfKey key))
            (filter (\<lambda>(key, val). P key val) m))"

text \<open>
  A tracked object is hit by the sweep: its resolved module is defined and one of its
  failed lookup locations is pending a failed-location check.
\<close>

definition triggered :: "env \<Rightarrow> loader \<Rightarrow> ObjectRef \<Rightarrow> bool" where
  "triggered e s r =
     (case resolvedModule (objectOf e s r) of
        None \<Rightarrow> False
      | Some rm \<Rightarrow>
          (case failedLookupLocations (objectOf e s r) of
             None \<Rightarrow> False
           | Some locations \<Rightarrow>
               list_ex (FileSet_has (hostCaseSensitive e) (pendingFailedLocationCheck s))
                 locations))"

definition resolvedPath :: "env \<Rightarrow> loader \<Rightarrow> ObjectRef \<Rightarrow> string" where
  "resolvedPath e s r =
     (case resolvedModule (objectOf e s r) of None \<Rightarrow> [] | Some rm \<Rightarrow> resolvedFileName rm)"

definition owningFiles :: "loader \<Rightarrow> ObjectRef \<Rightarrow> string set" where
  "owningFiles s r = (case filesField s r of None \<Rightarrow> {} | Some a \<Rightarrow> fileSet s a)"

text \<open>
  Every tracked object carries a \<^verbatim>\<open>files\<close> set, as
  \<^verbatim>\<open>cacheResolutionWithFailedLookup\<close> creates it before it adds the object.
\<close>

definition tracked_wf :: "loader \<Rightarrow> bool" where
  "tracked_wf s = list_all (\<lambda>r. filesField s r \<noteq> None) (resolutionWithFailedLookup s)"

text \<open>The stored key of a specifier and a containing file.\<close>

definition storedKey :: "env \<Rightarrow> string \<Rightarrow> string \<Rightarrow> string" where
  "storedKey e moduleName containingFile =
     getCanonicalFileName e (getKey e moduleName containingFile)"

text \<open>
  What the host answers for a specifier: the object that \<^verbatim>\<open>tsModule.resolveModuleName\<close>
  returns for the name, the containing file and the resolution mode of the import.
\<close>

definition hostAnswer ::
  "env \<Rightarrow> string \<Rightarrow> string \<Rightarrow> SourceFile option \<Rightarrow> nat \<Rightarrow> CompilerOptions option
     \<Rightarrow> CompilerOptions \<Rightarrow> HostResolution" where
  "hostAnswer e name c sf i red opt =
     hostObject e
       (tsResolveModuleName e name c red
          (impliedNodeFormatResolver_resolve e name i sf
             (case red of Some opts \<Rightarrow> opts | None \<Rightarrow> opt)))"

text \<open>The resolved module of the object that \<^verbatim>\<open>resolveModuleName\<close> returns.\<close>

definition remap :: "env \<Rightarrow> ResolvedModule \<Rightarrow> ResolvedModule" where
  "remap e rm =
     (if isVirtualSvelteFilePath e (resolvedFileName rm) \<and>
         isSvelteFilePath e (getRealSveltePathIfExists e (resolvedFileName rm))
      then \<lparr>resolvedFileName = getRealSveltePathIfExists e (resolvedFileName rm),
            extension = snapshotExtension e (getRealSveltePathIfExists e (resolvedFileName rm)),
            isExternalLibraryImport = isExternalLibraryImport rm\<rparr>
      else rm)"

text \<open>A cached or returned value does not carry a virtual path.\<close>

definition nonVirtual :: "env \<Rightarrow> ResolvedModule option \<Rightarrow> bool" where
  "nonVirtual e val =
     (case val of None \<Rightarrow> True | Some r \<Rightarrow> \<not> isVirtualSvelteFilePath e (resolvedFileName r))"

text \<open>A property of the cache that survives the removal of entries and the growth of the
  pending-invalidation set.\<close>

definition removal_stable :: "(ModuleResolutionCache \<Rightarrow> bool) \<Rightarrow> bool" where
  "removal_stable Q =
     (\<forall>mc cs key x. Q mc \<longrightarrow>
        Q (mc\<lparr>cache := FileMap_delete cs (cache mc) key,
              pendingInvalidations := FileSet_add cs (pendingInvalidations mc) x\<rparr>))"

text \<open>An event does not resolve any specifier whose stored key is \<open>k\<close>.\<close>

fun never_queries :: "string \<Rightarrow> env \<times> event \<Rightarrow> bool" where
  "never_queries k (e, ResolveModuleNames moduleNames containingFile redirected options sf) =
     list_all (\<lambda>m. storedKey e m containingFile \<noteq> k) moduleNames"
| "never_queries k (e, ev) = True"

text \<open>
  The shape of the tracker in every state the calls build: each tracked object has a
  \<^verbatim>\<open>files\<close> set, and each tracked copy was allocated by the loader.
\<close>

fun allocatedIn :: "nat \<Rightarrow> ObjectRef \<Rightarrow> bool" where
  "allocatedIn n (HostObject i) = True"
| "allocatedIn n (RemappedObject i) = (i < n)"

definition tracker_wf :: "loader \<Rightarrow> bool" where
  "tracker_wf s =
     list_all (\<lambda>r. filesField s r \<noteq> None \<and> allocatedIn (nextRemapped s) r)
       (resolutionWithFailedLookup s)"

text \<open>
  A call that leaves the unresolved entry stored under \<open>k\<close> in place: it runs on a host
  with the case-sensitivity policy of \<open>e\<close>, and it is not a
  \<^verbatim>\<open>deleteUnresolvedResolutionsFromCache\<close> whose stem occurs in the specifier part
  of \<open>k\<close>.
\<close>

fun keeps_unresolved :: "env \<Rightarrow> string \<Rightarrow> env \<times> event \<Rightarrow> bool" where
  "keeps_unresolved e k (e', DeleteUnresolvedResolutionsFromCache path) =
     (sysCaseSensitive e' = sysCaseSensitive e \<and>
      \<not> str_includes (moduleNameOfKey k) (fileNameWithoutEnding e' path))"
| "keeps_unresolved e k (e', ev) = (sysCaseSensitive e' = sysCaseSensitive e)"

text \<open>
  The cache is well formed and holds the key \<open>k\<close> with the value \<^verbatim>\<open>undefined\<close>.
\<close>

definition cachedUnresolved :: "env \<Rightarrow> string \<Rightarrow> ModuleResolutionCache \<Rightarrow> bool" where
  "cachedUnresolved e k mc = (cache_wf e mc \<and> map_of (cache mc) k = Some None)"

section \<open>An example environment\<close>

text \<open>
  Modelled from the spec: the path classifiers and the virtual file system are defined
  outside the module loader. For the concrete runs below they
  follow the comment on \<^verbatim>\<open>createSvelteModuleLoader\<close>: the virtual companion of
  \<^verbatim>\<open>Component.svelte\<close> is \<^verbatim>\<open>Component.svelte.ts\<close>, and a virtual path is turned
  into the real one when the real file exists.
\<close>

definition endsWith :: "string \<Rightarrow> string \<Rightarrow> bool" where
  "endsWith s e = prefix (rev e) (rev s)"

definition toRealSvelteFilePath :: "string \<Rightarrow> string" where
  "toRealSvelteFilePath filePath = take (length filePath - 3) filePath"

definition exampleEnv :: "bool \<Rightarrow> string list \<Rightarrow> (string \<Rightarrow> nat) \<Rightarrow> (nat \<Rightarrow> HostResolution) \<Rightarrow> env" where
  "exampleEnv caseSensitive svelteFiles resolve objects =
     \<lparr>sysCaseSensitive = caseSensitive,
      hostCaseSensitive = caseSensitive,
      isSvelteFilePath = (\<lambda>p. endsWith p ''.svelte''),
      isVirtualSvelteFilePath = (\<lambda>p. endsWith p ''.svelte.ts''),
      ensureRealSvelteFilePath =
        (\<lambda>p. if endsWith p ''.svelte.ts'' then toRealSvelteFilePath p else p),
      getRealSveltePathIfExists =
        (\<lambda>p. if endsWith p ''.svelte.ts'' \<and> toRealSvelteFilePath p \<in> set svelteFiles
             then toRealSvelteFilePath p else p),
      snapshotExtension = (\<lambda>p. ''.ts''),
      getModeForResolutionAtIndex = (\<lambda>sf i opts. None),
      tsResolveModuleName = (\<lambda>name containingFile redirected mode. resolve name),
      hostObject = objects\<rparr>"

definition noHost :: "nat \<Rightarrow> HostResolution" where
  "noHost i = \<lparr>resolvedModule = None, failedLookupLocations = None\<rparr>"

definition exampleCache :: ModuleResolutionCache where
  "exampleCache =
     \<lparr>cache =
        [(''/proj/a.ts:::./Foo'', None),
         (''/proj/a.ts:::./Bar'', None),
         (''/proj/b.ts:::./Bar'',
            Some \<lparr>resolvedFileName = ''/proj/Bar.ts'', extension = ''.ts'',
                  isExternalLibraryImport = None\<rparr>)],
      pendingInvalidations = {}\<rparr>"

definition unresolvedCache :: "env \<Rightarrow> ModuleResolutionCache" where
  "unresolvedCache e =
     moduleCache_set e
       (moduleCache_set e
          (moduleCache_set e newModuleResolutionCache ''./Foo'' ''/proj/a.ts'' None)
          ''./Bar'' ''/proj/a.ts'' None)
       ''./Foo.svelte'' ''/proj/b.ts''
       (Some \<lparr>resolvedFileName = ''/proj/Foo.svelte'', extension = ''.ts'',
              isExternalLibraryImport = None\<rparr>)"

definition exampleLoader :: "env \<Rightarrow> loader" where
  "exampleLoader e = createSvelteModuleLoader\<lparr>moduleCache := unresolvedCache e\<rparr>"

definition demoObjects :: "nat \<Rightarrow> HostResolution" where
  "demoObjects i =
     (if i = 0 then
        \<lparr>resolvedModule = None,
         failedLookupLocations = Some [''/proj/Widget.ts'', ''/proj/Widget/index.ts'']\<rparr>
      else if i = 1 then
        \<lparr>resolvedModule =
           Some \<lparr>resolvedFileName = ''/proj/node_modules/lib/index.ts'', extension = ''.ts'',
                 isExternalLibraryImport = Some True\<rparr>,
         failedLookupLocations = Some [''/proj/lib.ts'', ''/proj/lib/index.ts'']\<rparr>
      else if i = 2 then
        \<lparr>resolvedModule =
           Some \<lparr>resolvedFileName = ''/proj/Comp.svelte.ts'', extension = ''.ts'',
                 isExternalLibraryImport = None\<rparr>,
         failedLookupLocations = None\<rparr>
      else \<lparr>resolvedModule = None, failedLookupLocations = None\<rparr>)"

definition demoResolve :: "string \<Rightarrow> nat" where
  "demoResolve name =
     (if name = ''./Widget'' then 0
      else if name = ''lib'' then 1
      else if name = ''./Comp.svelte'' then 2
      else 3)"

definition demoEnv :: "string list \<Rightarrow> env" where
  "demoEnv svelteFiles = exampleEnv True svelteFiles demoResolve demoObjects"

definition sweptLoader :: loader where
  "sweptLoader =
     deleteUnresolvedResolutionsFromCache (demoEnv [])
       (snd (resolveModuleNames (demoEnv []) createSvelteModuleLoader [''lib'', ''./Widget'']
               ''/proj/a.ts'' None 0 None))
       ''/proj/lib.ts''"

text \<open>
  A cache filled from a containing file whose path contains \<^verbatim>\<open>':::'\<close>: one
  specifier is unresolved, the other resolves to \<^verbatim>\<open>/proj/Foo.ts\<close>.
\<close>

definition separatorCache :: "env \<Rightarrow> ModuleResolutionCache" where
  "separatorCache e =
     moduleCache_set e
       (moduleCache_set e newModuleResolutionCache ''./b'' ''/proj/a:::x/c.ts'' None)
       ''./Foo'' ''/proj/a:::x/c.ts''
       (Some \<lparr>resolvedFileName = ''/proj/Foo.ts'', extension = ''.ts'',
              isExternalLibraryImport = None\<rparr>)"

text \<open>
  Calls of the session after a batch, none of which removes the entry of
  \<^verbatim>\<open>./Widget\<close>.
\<close>

definition laterCalls :: "(env \<times> event) list" where
  "laterCalls =
     [(demoEnv [], DeleteUnresolvedResolutionsFromCache ''/proj/other.css''),
      (demoEnv [], ClearPendingInvalidations),
      (demoEnv [], ResolveModuleNames [''./Widget''] ''/proj/a.ts'' None 0 None),
      (demoEnv [], DeleteFromModuleCache ''/proj/node_modules/lib/index.ts'')]"

section \<open>Canonical names and keys\<close>

lemma toLowerCodeUnit_idem: "toLowerCodeUnit (toLowerCodeUnit c) = toLowerCodeUnit c"
  unfolding toLowerCodeUnit_def upperCaseCodeUnits_def lowerCaseCodeUnits_def
  by (simp split: if_splits)

lemma toLowerCodeUnit_colon: "(toLowerCodeUnit c = CHR '':'') = (c = CHR '':'')"
  unfolding toLowerCodeUnit_def upperCaseCodeUnits_def lowerCaseCodeUnits_def
  by (simp split: if_splits)

lemma foldChar_idem: "foldChar (foldChar c) = foldChar c"
  by (simp add: foldChar_def toLowerCodeUnit_idem)

lemma foldChar_colon: "(foldChar c = CHR '':'') = (c = CHR '':'')"
  by (auto simp: foldChar_def toLowerCodeUnit_colon fileNameLowerCaseRegExp_def)

lemma replaceRuns_map:
  "list_all fileNameLowerCaseRegExp matched \<Longrightarrow>
     replaceRuns toLowerCase matched x = map foldChar (rev matched) @ map foldChar x"
proof (induction x arbitrary: matched)
  case Nil
  then show ?case
    by (simp add: toLowerCase_def foldChar_def list_all_iff)
next
  case (Cons c cs)
  have r: "map foldChar (rev matched) = toLowerCase (rev matched)"
    using Cons.prems by (simp add: toLowerCase_def foldChar_def list_all_iff)
  show ?case
  proof (cases "fileNameLowerCaseRegExp c")
    case True
    then show ?thesis using Cons.prems Cons.IH [of "c # matched"] by simp
  next
    case False
    then show ?thesis using Cons.IH [of "[]"] r by (simp add: foldChar_def toLowerCase_def)
  qed
qed

text \<open>
  Lower-casing run by run is lower-casing code unit by code unit, because
  \<^const>\<open>toLowerCase\<close> works code unit by code unit.
\<close>

lemma toFileNameLowerCase_map: "toFileNameLowerCase x = map foldChar x"
proof (cases "list_ex fileNameLowerCaseRegExp x")
  case True
  then show ?thesis by (simp add: toFileNameLowerCase_def replaceRuns_map)
next
  case False
  then have "map foldChar x = x"
    by (simp add: list_ex_iff foldChar_def map_idI)
  with False show ?thesis by (simp add: toFileNameLowerCase_def)
qed

lemma canon_idem:
  "createGetCanonicalFileName cs (createGetCanonicalFileName cs x) =
     createGetCanonicalFileName cs x"
  by (simp add: createGetCanonicalFileName_def toFileNameLowerCase_map foldChar_idem)

lemma canon_append:
  "createGetCanonicalFileName cs (a @ b) =
     createGetCanonicalFileName cs a @ createGetCanonicalFileName cs b"
  by (simp add: createGetCanonicalFileName_def toFileNameLowerCase_map)

lemma canon_sep:
  "createGetCanonicalFileName cs CACHE_KEY_SEPARATOR = CACHE_KEY_SEPARATOR"
  by (simp add: createGetCanonicalFileName_def toFileNameLowerCase_map CACHE_KEY_SEPARATOR_def
      foldChar_colon)

lemma getCanonical_idem:
  "getCanonicalFileName e (getCanonicalFileName e x) = getCanonicalFileName e x"
  by (simp add: getCanonicalFileName_def canon_idem)

lemma prefix_append_long:
  "length sep \<le> length xs \<Longrightarrow> prefix sep (xs @ b) = prefix sep xs"
  by (auto simp: prefix_append)

lemma split_acc_hit:
  "sep \<noteq> [] \<Longrightarrow> prefix sep s \<Longrightarrow>
     split_acc sep acc s = rev acc # split_acc sep [] (drop (length sep) s)"
  by (cases s) simp_all

lemma split_acc_first:
  assumes "separator_free a"
  shows "split_acc CACHE_KEY_SEPARATOR acc (a @ CACHE_KEY_SEPARATOR @ b) =
           (rev acc @ a) # split_acc CACHE_KEY_SEPARATOR [] b"
  using assms
proof (induction a arbitrary: acc)
  case Nil
  have "split_acc CACHE_KEY_SEPARATOR acc (CACHE_KEY_SEPARATOR @ b) =
          rev acc # split_acc CACHE_KEY_SEPARATOR []
            (drop (length CACHE_KEY_SEPARATOR) (CACHE_KEY_SEPARATOR @ b))"
    by (rule split_acc_hit) (simp_all add: CACHE_KEY_SEPARATOR_def)
  then show ?case by simp
next
  case (Cons x a)
  have np: "\<not> prefix CACHE_KEY_SEPARATOR (x # a @ CACHE_KEY_SEPARATOR)" and sf: "separator_free a"
    using Cons.prems by simp_all
  have "prefix CACHE_KEY_SEPARATOR ((x # a @ CACHE_KEY_SEPARATOR) @ b) =
          prefix CACHE_KEY_SEPARATOR (x # a @ CACHE_KEY_SEPARATOR)"
    by (rule prefix_append_long) simp
  with np have "\<not> prefix CACHE_KEY_SEPARATOR (x # a @ CACHE_KEY_SEPARATOR @ b)" by simp
  then have "split_acc CACHE_KEY_SEPARATOR acc ((x # a) @ CACHE_KEY_SEPARATOR @ b) =
               split_acc CACHE_KEY_SEPARATOR (x # acc) (a @ CACHE_KEY_SEPARATOR @ b)"
    by simp
  also have "\<dots> = (rev (x # acc) @ a) # split_acc CACHE_KEY_SEPARATOR [] b"
    by (rule Cons.IH [OF sf])
  finally show ?case by simp
qed

lemma split_acc_nonempty: "split_acc sep acc s \<noteq> []"
  by (induction sep acc s rule: split_acc.induct) auto

lemma containingFileOfKey_append:
  "separator_free a \<Longrightarrow> containingFileOfKey (a @ CACHE_KEY_SEPARATOR @ b) = a"
  by (simp add: containingFileOfKey_def js_split_def split_acc_first shift_or_empty_def)

lemma moduleNameOfKey_append:
  "separator_free a \<Longrightarrow>
     moduleNameOfKey (a @ CACHE_KEY_SEPARATOR @ b) =
       shift_or_empty (js_split CACHE_KEY_SEPARATOR b)"
  using split_acc_nonempty [of CACHE_KEY_SEPARATOR "[]" b]
  by (cases "split_acc CACHE_KEY_SEPARATOR [] b")
     (simp_all add: moduleNameOfKey_def js_split_def split_acc_first second_or_empty_def
        shift_or_empty_def)

lemma split_acc_no_separator:
  "\<not> sublist sep s \<Longrightarrow> split_acc sep acc s = [rev acc @ s]"
proof (induction s arbitrary: acc)
  case Nil
  then show ?case by simp
next
  case (Cons c s)
  from Cons.prems have "\<not> prefix sep (c # s)" and "\<not> sublist sep s"
    by (auto simp: sublist_Cons_right)
  with Cons.IH [of "c # acc"] show ?case by simp
qed

lemma prefix_colons_map:
  assumes f: "\<And>c. (f c = CHR '':'') = (c = CHR '':'')"
    and "set sep \<subseteq> {CHR '':''}"
  shows "prefix sep (map f ys) = prefix sep ys"
  using assms(2)
proof (induction sep arbitrary: ys)
  case Nil
  then show ?case by simp
next
  case (Cons s sep)
  then have s: "s = CHR '':''" and sub: "set sep \<subseteq> {CHR '':''}" by simp_all
  show ?case
  proof (cases ys)
    case Nil
    then show ?thesis by simp
  next
    case (Cons y ys')
    have "(CHR '':'' = f y) = (CHR '':'' = y)" using f [of y] by auto
    then show ?thesis
      by (simp add: Cons s Cons.IH [OF sub])
  qed
qed

lemma prefix_sep_map:
  assumes "\<And>c. (f c = CHR '':'') = (c = CHR '':'')"
  shows "prefix CACHE_KEY_SEPARATOR (map f ys) = prefix CACHE_KEY_SEPARATOR ys"
  by (rule prefix_colons_map [OF assms]) (simp add: CACHE_KEY_SEPARATOR_def)

lemma separator_free_map:
  assumes "\<And>c. (f c = CHR '':'') = (c = CHR '':'')"
  shows "separator_free (map f x) = separator_free x"
proof (induction x)
  case Nil
  then show ?case by simp
next
  case (Cons c cs)
  have "map f CACHE_KEY_SEPARATOR = CACHE_KEY_SEPARATOR"
    using assms by (simp add: CACHE_KEY_SEPARATOR_def)
  then have "prefix CACHE_KEY_SEPARATOR (f c # map f cs @ CACHE_KEY_SEPARATOR) =
        prefix CACHE_KEY_SEPARATOR (map f (c # cs @ CACHE_KEY_SEPARATOR))"
    by simp
  also have "\<dots> = prefix CACHE_KEY_SEPARATOR (c # cs @ CACHE_KEY_SEPARATOR)"
    by (rule prefix_sep_map [OF assms])
  finally show ?case using Cons.IH by simp
qed

lemma separator_free_canon:
  "separator_free (createGetCanonicalFileName cs x) = separator_free x"
  by (simp add: createGetCanonicalFileName_def toFileNameLowerCase_map
      separator_free_map [of foldChar] foldChar_colon)

lemma canon_getKey:
  "getCanonicalFileName e (getKey e m c) =
     getCanonicalFileName e c @ CACHE_KEY_SEPARATOR @
       getCanonicalFileName e (ensureRealSvelteFilePath e m)"
  by (simp add: getKey_def getCanonicalFileName_def canon_append canon_sep)

lemma containingFileOfKey_getKey:
  "separator_free c \<Longrightarrow>
     containingFileOfKey (getCanonicalFileName e (getKey e m c)) = getCanonicalFileName e c"
  unfolding canon_getKey
  by (rule containingFileOfKey_append) (simp add: separator_free_canon getCanonicalFileName_def)

lemma sublist_sep_map:
  assumes "\<And>c. (f c = CHR '':'') = (c = CHR '':'')"
  shows "sublist CACHE_KEY_SEPARATOR (map f x) = sublist CACHE_KEY_SEPARATOR x"
proof (induction x)
  case Nil
  then show ?case by (simp add: CACHE_KEY_SEPARATOR_def)
next
  case (Cons y ys)
  have "prefix CACHE_KEY_SEPARATOR (map f (y # ys)) = prefix CACHE_KEY_SEPARATOR (y # ys)"
    by (rule prefix_sep_map [OF assms])
  with Cons.IH show ?case by (simp add: sublist_Cons_right)
qed

lemma sublist_sep_canon:
  "sublist CACHE_KEY_SEPARATOR (createGetCanonicalFileName cs x) =
     sublist CACHE_KEY_SEPARATOR x"
  by (simp add: createGetCanonicalFileName_def toFileNameLowerCase_map
      sublist_sep_map [of foldChar] foldChar_colon)

lemma storedKey_parts:
  assumes "separator_free c"
  shows "containingFileOfKey (storedKey e m c) = getCanonicalFileName e c"
    and "\<not> sublist CACHE_KEY_SEPARATOR (ensureRealSvelteFilePath e m) \<Longrightarrow>
           moduleNameOfKey (storedKey e m c) =
             getCanonicalFileName e (ensureRealSvelteFilePath e m)"
proof -
  show "containingFileOfKey (storedKey e m c) = getCanonicalFileName e c"
    by (simp add: storedKey_def containingFileOfKey_getKey [OF assms])
  assume "\<not> sublist CACHE_KEY_SEPARATOR (ensureRealSvelteFilePath e m)"
  then have "\<not> sublist CACHE_KEY_SEPARATOR (getCanonicalFileName e (ensureRealSvelteFilePath e m))"
    by (simp add: getCanonicalFileName_def sublist_sep_canon)
  then have "js_split CACHE_KEY_SEPARATOR (getCanonicalFileName e (ensureRealSvelteFilePath e m)) =
               [getCanonicalFileName e (ensureRealSvelteFilePath e m)]"
    by (simp add: js_split_def split_acc_no_separator)
  moreover have "separator_free (getCanonicalFileName e c)"
    using assms by (simp add: getCanonicalFileName_def separator_free_canon)
  ultimately show "moduleNameOfKey (storedKey e m c) =
             getCanonicalFileName e (ensureRealSvelteFilePath e m)"
    by (simp add: storedKey_def canon_getKey moduleNameOfKey_append shift_or_empty_def)
qed

section \<open>The cache operations as filters\<close>

lemma delete_absent: "k \<notin> fst ` set xs \<Longrightarrow> AList.delete k xs = xs"
  by (induction xs) (auto simp: AList.delete_eq)

lemma map_of_absent: "k \<notin> fst ` set xs \<Longrightarrow> map_of xs k = None"
  by (simp add: map_of_eq_None_iff)

lemma lookup_after_filter:
  assumes "distinct (map fst entries)"
  shows "map_of (filter keep entries) k =
           (case map_of entries k of
              Some v \<Rightarrow> (if keep (k, v) then Some v else None)
            | None \<Rightarrow> None)"
  using assms
proof (induction entries)
  case Nil
  then show ?case by simp
next
  case (Cons entry rest)
  obtain k' v' where entry: "entry = (k', v')" by (cases entry)
  show ?case
  proof (cases "k' = k")
    case True
    with Cons.prems entry have "k \<notin> fst ` set rest" by auto
    then have "map_of (filter keep rest) k = None"
      by (auto simp: map_of_eq_None_iff)
    with True show ?thesis by (simp add: entry)
  next
    case False
    with Cons show ?thesis by (simp add: entry)
  qed
qed

lemma moduleCache_get_stored:
  "moduleCache_get e mc m c =
     (case map_of (cache mc) (storedKey e m c) of None \<Rightarrow> None | Some val \<Rightarrow> val)"
  by (simp add: moduleCache_get_def FileMap_get_def storedKey_def getCanonicalFileName_def)

lemma moduleCache_has_stored:
  "moduleCache_has e mc m c = (map_of (cache mc) (storedKey e m c) \<noteq> None)"
  by (simp add: moduleCache_has_def FileMap_has_def storedKey_def getCanonicalFileName_def)

lemma forEach_remove:
  fixes P :: "ResolvedModule option \<Rightarrow> string \<Rightarrow> bool"
  assumes f: "\<And>val key mc. f val key mc =
       (if P val key
        then mc\<lparr>cache := FileMap_delete cs (cache mc) key,
                pendingInvalidations :=
                  FileSet_add cs (pendingInvalidations mc) (containingFileOfKey key)\<rparr>
        else mc)"
    and "distinct (map fst (pre @ es))"
    and "list_all (\<lambda>(k, v). createGetCanonicalFileName cs k = k) es"
    and "cache mc = filter (\<lambda>(k, v). \<not> P v k) pre @ es"
  shows "FileMap_forEach cache f es mc =
           mc\<lparr>cache := filter (\<lambda>(k, v). \<not> P v k) (pre @ es),
              pendingInvalidations := pendingInvalidations mc \<union>
                set (map (\<lambda>(k, v). createGetCanonicalFileName cs (containingFileOfKey k))
                       (filter (\<lambda>(k, v). P v k) es))\<rparr>"
  using assms(2-)
proof (induction es arbitrary: pre mc)
  case Nil
  then show ?case by simp
next
  case (Cons x es)
  obtain k v where x: "x = (k, v)" by (cases x)
  let ?keep = "\<lambda>(k, v). \<not> P v k"
  from Cons.prems(1) have k_pre: "k \<notin> fst ` set pre" and k_es: "k \<notin> fst ` set es"
    by (auto simp: x)
  have k_fpre: "k \<notin> fst ` set (filter ?keep pre)" using k_pre by auto
  from Cons.prems(2) have canon_k: "createGetCanonicalFileName cs k = k"
    and canon_es: "list_all (\<lambda>(k, v). createGetCanonicalFileName cs k = k) es"
    by (simp_all add: x)
  have present: "map_of (cache mc) k = Some v"
    using k_fpre by (simp add: Cons.prems(3) x map_add_def map_of_absent)
  have dist': "distinct (map fst ((pre @ [x]) @ es))" using Cons.prems(1) by simp
  define mc' where "mc' = (if map_of (cache mc) k = Some v then f v k mc else mc)"
  have step: "FileMap_forEach cache f (x # es) mc = FileMap_forEach cache f es mc'"
    by (simp add: x mc'_def)
  show ?case
  proof (cases "P v k")
    case True
    have del: "AList.delete k (filter ?keep pre @ (k, v) # es) = filter ?keep pre @ es"
    proof -
      have "AList.delete k (filter ?keep pre @ (k, v) # es) =
              AList.delete k (filter ?keep pre) @ AList.delete k es"
        by (simp add: AList.delete_eq)
      then show ?thesis
        by (simp add: delete_absent [OF k_fpre] delete_absent [OF k_es])
    qed
    have mc': "mc' = mc\<lparr>cache := filter ?keep pre @ es,
        pendingInvalidations := insert (createGetCanonicalFileName cs (containingFileOfKey k))
                                  (pendingInvalidations mc)\<rparr>"
      using True present del
      by (simp add: mc'_def f FileMap_delete_def FileSet_add_def canon_k Cons.prems(3) x)
    have c': "cache mc' = filter ?keep (pre @ [x]) @ es"
      using True by (simp add: mc' x)
    show ?thesis
      unfolding step Cons.IH [OF dist' canon_es c']
      using True by (auto simp: mc' x)
  next
    case False
    have mc': "mc' = mc" using False by (simp add: mc'_def f)
    have c': "cache mc' = filter ?keep (pre @ [x]) @ es"
      using False by (simp add: mc' x Cons.prems(3))
    show ?thesis
      unfolding step Cons.IH [OF dist' canon_es c']
      using False by (auto simp: mc' x)
  qed
qed

lemma cache_wf_keys:
  "cache_wf e mc \<Longrightarrow> list_all (\<lambda>(k, v). createGetCanonicalFileName (sysCaseSensitive e) k = k) (cache mc)"
  by (simp add: cache_wf_def getCanonicalFileName_def)

lemma moduleCache_delete_eq:
  assumes "cache_wf e mc"
  shows "moduleCache_delete e mc path =
           mc\<lparr>cache := filter (\<lambda>(key, val). \<not> resolvesTo e path val) (cache mc),
              pendingInvalidations := pendingInvalidations mc \<union>
                containingFilesWhere e (\<lambda>key val. resolvesTo e path val) (cache mc)\<rparr>"
proof -
  have f: "\<And>val key mc. delete_visit e (getCanonicalFileName e path) val key mc =
       (if resolvesTo e path val
        then mc\<lparr>cache := FileMap_delete (sysCaseSensitive e) (cache mc) key,
                pendingInvalidations :=
                  FileSet_add (sysCaseSensitive e) (pendingInvalidations mc) (containingFileOfKey key)\<rparr>
        else mc)"
    by (simp add: delete_visit_def resolvesTo_def split: option.splits)
  have "FileMap_forEach cache (delete_visit e (getCanonicalFileName e path)) (cache mc) mc =
          mc\<lparr>cache := filter (\<lambda>(k, v). \<not> resolvesTo e path v) ([] @ cache mc),
             pendingInvalidations := pendingInvalidations mc \<union>
               set (map (\<lambda>(k, v). createGetCanonicalFileName (sysCaseSensitive e) (containingFileOfKey k))
                      (filter (\<lambda>(k, v). resolvesTo e path v) (cache mc)))\<rparr>"
    by (rule forEach_remove [where P = "\<lambda>v k. resolvesTo e path v", OF f])
       (use assms in \<open>simp_all add: cache_wf_def cache_wf_keys\<close>)
  then show ?thesis
    by (simp add: moduleCache_delete_def containingFilesWhere_def getCanonicalFileName_def)
qed

lemma moduleCache_deleteUnresolved_eq:
  assumes "cache_wf e mc"
  shows "moduleCache_deleteUnresolvedResolutionsFromCache e mc path =
           mc\<lparr>cache := filter (\<lambda>(key, val). \<not> unresolvedMatching (fileNameWithoutEnding e path) key val)
                         (cache mc),
              pendingInvalidations := pendingInvalidations mc \<union>
                containingFilesWhere e (unresolvedMatching (fileNameWithoutEnding e path)) (cache mc)\<rparr>"
proof -
  let ?stem = "fileNameWithoutEnding e path"
  have f: "\<And>val key mc. deleteUnresolved_visit e ?stem val key mc =
       (if unresolvedMatching ?stem key val
        then mc\<lparr>cache := FileMap_delete (sysCaseSensitive e) (cache mc) key,
                pendingInvalidations :=
                  FileSet_add (sysCaseSensitive e) (pendingInvalidations mc) (containingFileOfKey key)\<rparr>
        else mc)"
    by (simp add: deleteUnresolved_visit_def unresolvedMatching_def split: option.splits)
  have "FileMap_forEach cache (deleteUnresolved_visit e ?stem) (cache mc) mc =
          mc\<lparr>cache := filter (\<lambda>(k, v). \<not> unresolvedMatching ?stem k v) ([] @ cache mc),
             pendingInvalidations := pendingInvalidations mc \<union>
               set (map (\<lambda>(k, v). createGetCanonicalFileName (sysCaseSensitive e) (containingFileOfKey k))
                      (filter (\<lambda>(k, v). unresolvedMatching ?stem k v) (cache mc)))\<rparr>"
    by (rule forEach_remove [where P = "\<lambda>v k. unresolvedMatching ?stem k v", OF f])
       (use assms in \<open>simp_all add: cache_wf_def cache_wf_keys\<close>)
  then show ?thesis
    by (simp add: moduleCache_deleteUnresolvedResolutionsFromCache_def containingFilesWhere_def
        getCanonicalFileName_def)
qed

lemma cache_wf_filter:
  "cache_wf e mc \<Longrightarrow> cache_wf e (mc\<lparr>cache := filter P (cache mc), pendingInvalidations := X\<rparr>)"
  by (auto simp: cache_wf_def distinct_map_filter list_all_iff)

lemma cache_wf_delete: "cache_wf e mc \<Longrightarrow> cache_wf e (moduleCache_delete e mc path)"
  by (simp add: moduleCache_delete_eq cache_wf_filter)

lemma cache_wf_deleteUnresolved:
  "cache_wf e mc \<Longrightarrow> cache_wf e (moduleCache_deleteUnresolvedResolutionsFromCache e mc path)"
  by (simp add: moduleCache_deleteUnresolved_eq cache_wf_filter)

lemma update_keys_canonical:
  "list_all (\<lambda>(k, v). f k = k) xs \<Longrightarrow> f k = k \<Longrightarrow>
     list_all (\<lambda>(k, v). f k = k) (AList.update k v xs)"
  by (induction xs) auto

lemma cache_wf_set: "cache_wf e mc \<Longrightarrow> cache_wf e (moduleCache_set e mc m c r)"
  by (simp add: cache_wf_def moduleCache_set_def FileMap_set_def distinct_update
      getCanonicalFileName_def canon_idem update_keys_canonical)

lemma cache_wf_new: "cache_wf e newModuleResolutionCache"
  by (simp add: cache_wf_def newModuleResolutionCache_def)

lemma split_dot_first: "shift_or_empty (split_acc ''.'' acc s) = rev acc @ takeWhile (\<lambda>c. c \<noteq> CHR ''.'') s"
  by (induction s arbitrary: acc) (simp_all add: shift_or_empty_def)

lemma fileNameWithoutEnding_takeWhile:
  "fileNameWithoutEnding e path =
     takeWhile (\<lambda>c. c \<noteq> CHR ''.'') (getLastPartOfPath (getCanonicalFileName e path))"
  by (simp add: fileNameWithoutEnding_def js_split_def split_dot_first)

lemma pop_or_empty_Cons: "ys \<noteq> [] \<Longrightarrow> pop_or_empty (x # ys) = pop_or_empty ys"
  by (cases "rev ys") (simp_all add: pop_or_empty_def)

lemma takeWhile_snoc_all:
  "\<forall>x\<in>set xs. P x \<Longrightarrow> \<not> P c \<Longrightarrow> takeWhile P (xs @ [c]) = xs"
  by (simp add: takeWhile_append2)

lemma takeWhile_snoc_stop:
  "x \<in> set xs \<Longrightarrow> \<not> P x \<Longrightarrow> takeWhile P (xs @ [c]) = takeWhile P xs"
  by (rule takeWhile_append1)

lemma pop_split_slash:
  "pop_or_empty (split_acc ''/'' acc s) =
     (if CHR ''/'' \<in> set s then rev (takeWhile (\<lambda>c. c \<noteq> CHR ''/'') (rev s)) else rev acc @ s)"
proof (induction s arbitrary: acc)
  case Nil
  then show ?case by (simp add: pop_or_empty_def)
next
  case (Cons c cs)
  let ?Q = "\<lambda>c. c \<noteq> CHR ''/''"
  have stop: "takeWhile ?Q (rev cs @ [c]) = takeWhile ?Q (rev cs)" if "CHR ''/'' \<in> set cs"
    by (rule takeWhile_snoc_stop [of "CHR ''/''"]) (use that in simp_all)
  show ?case
  proof (cases "c = CHR ''/''")
    case True
    have l: "pop_or_empty (split_acc ''/'' acc (c # cs)) = pop_or_empty (split_acc ''/'' [] cs)"
      by (simp add: True pop_or_empty_Cons split_acc_nonempty)
    show ?thesis
    proof (cases "CHR ''/'' \<in> set cs")
      case in_cs: True
      show ?thesis
        unfolding l Cons.IH [of "[]"] using in_cs True by (simp add: stop)
    next
      case False
      then have "\<forall>x\<in>set (rev cs). ?Q x" by auto
      then have "takeWhile ?Q (rev cs @ [c]) = rev cs"
        by (rule takeWhile_snoc_all) (simp add: True)
      then show ?thesis
        unfolding l Cons.IH [of "[]"] using False True by simp
    qed
  next
    case False
    have l: "pop_or_empty (split_acc ''/'' acc (c # cs)) =
               pop_or_empty (split_acc ''/'' (c # acc) cs)"
      using False by simp
    show ?thesis
    proof (cases "CHR ''/'' \<in> set cs")
      case True
      show ?thesis
        unfolding l Cons.IH [of "c # acc"] using True by (simp add: stop)
    next
      case nin: False
      show ?thesis
        unfolding l Cons.IH [of "c # acc"] using nin False by simp
    qed
  qed
qed

lemma getLastPartOfPath_takeWhile:
  "getLastPartOfPath p =
     rev (takeWhile (\<lambda>c. c \<noteq> CHR ''/'' \<and> c \<noteq> CHR 0x5C) (rev p))"
proof -
  let ?f = "\<lambda>c. if c = CHR 0x5C then CHR ''/'' else c"
  let ?P = "\<lambda>c. c \<noteq> CHR ''/'' \<and> c \<noteq> CHR 0x5C"
  let ?Q = "\<lambda>c. c \<noteq> CHR ''/''"
  have all: "takeWhile ?Q (rev xs) = rev xs" if "CHR ''/'' \<notin> set xs" for xs
  proof -
    from that have "\<forall>x\<in>set (rev xs). ?Q x" by auto
    then show ?thesis by (simp only: takeWhile_eq_all_conv)
  qed
  have 1: "getLastPartOfPath p = rev (takeWhile ?Q (rev (map ?f p)))"
  proof (cases "CHR ''/'' \<in> set (map ?f p)")
    case True
    then show ?thesis
      unfolding getLastPartOfPath_def js_split_def pop_split_slash by (simp only: if_True)
  next
    case False
    then show ?thesis
      unfolding getLastPartOfPath_def js_split_def pop_split_slash
      by (simp only: if_False all [OF False] rev_rev_ident rev.simps append_Nil)
  qed
  have "?Q \<circ> ?f = ?P" by (auto simp: fun_eq_iff)
  then have 2: "takeWhile ?Q (rev (map ?f p)) = map ?f (takeWhile ?P (rev p))"
    by (simp only: rev_map takeWhile_map)
  have 3: "map ?f (takeWhile ?P (rev p)) = takeWhile ?P (rev p)"
    by (rule map_idI) (auto dest: set_takeWhileD)
  show ?thesis by (simp only: 1 2 3)
qed

section \<open>The cache key\<close>

text \<open>
  C3. The claim says that the key function is injective on pairs of containing file and
  specifier because the separator never appears in either component. Nothing in the
  code keeps \<^verbatim>\<open>':::'\<close> out of a path or a specifier: the two distinct pairs below get
  the same key.
\<close>

theorem cache_key_collision:
  "getKey (exampleEnv True [] (\<lambda>n. 0) noHost) ''x:::./b'' ''/proj/a.ts'' =
     getKey (exampleEnv True [] (\<lambda>n. 0) noHost) ''./b'' ''/proj/a.ts:::x'' \<and>
   (''/proj/a.ts'', ''x:::./b'') \<noteq> (''/proj/a.ts:::x'', ''./b'')"
  by (simp add: getKey_def exampleEnv_def CACHE_KEY_SEPARATOR_def endsWith_def)

text \<open>
  C3, as the code has it. The key is the containing file, the separator and the
  specifier after virtual-extension normalisation; the file map case-normalises the
  whole key with \<^verbatim>\<open>toFileNameLowerCase\<close> when the host is case-insensitive. For
  containing files free of the separator (no \<^verbatim>\<open>':::'\<close> inside, no colon at the
  end), two pairs get the same stored key exactly when their containing files agree up
  to case normalisation and their normalised specifiers agree up to case normalisation.
\<close>

theorem cache_key_injective_up_to_normalisation:
  assumes "separator_free c1" and "separator_free c2"
  shows "getCanonicalFileName e (getKey e m1 c1) = getCanonicalFileName e (getKey e m2 c2) \<longleftrightarrow>
           getCanonicalFileName e c1 = getCanonicalFileName e c2 \<and>
           getCanonicalFileName e (ensureRealSvelteFilePath e m1) =
             getCanonicalFileName e (ensureRealSvelteFilePath e m2)"
proof
  assume eq: "getCanonicalFileName e (getKey e m1 c1) = getCanonicalFileName e (getKey e m2 c2)"
  have "containingFileOfKey (getCanonicalFileName e (getKey e m1 c1)) =
          containingFileOfKey (getCanonicalFileName e (getKey e m2 c2))"
    by (simp add: eq)
  then have c: "getCanonicalFileName e c1 = getCanonicalFileName e c2"
    using assms by (simp add: containingFileOfKey_getKey)
  with eq show "getCanonicalFileName e c1 = getCanonicalFileName e c2 \<and>
           getCanonicalFileName e (ensureRealSvelteFilePath e m1) =
             getCanonicalFileName e (ensureRealSvelteFilePath e m2)"
    by (simp add: canon_getKey)
next
  assume "getCanonicalFileName e c1 = getCanonicalFileName e c2 \<and>
           getCanonicalFileName e (ensureRealSvelteFilePath e m1) =
             getCanonicalFileName e (ensureRealSvelteFilePath e m2)"
  then show "getCanonicalFileName e (getKey e m1 c1) = getCanonicalFileName e (getKey e m2 c2)"
    by (simp add: canon_getKey)
qed

theorem cache_key_injective_up_to_normalisation_witness:
  "separator_free ''C:/proj/A.ts'' \<and> separator_free ''c:/proj/a.ts'' \<and>
   getCanonicalFileName (exampleEnv False [] (\<lambda>n. 0) noHost)
       (getKey (exampleEnv False [] (\<lambda>n. 0) noHost) ''./Foo.svelte.ts'' ''C:/proj/A.ts'') =
     getCanonicalFileName (exampleEnv False [] (\<lambda>n. 0) noHost)
       (getKey (exampleEnv False [] (\<lambda>n. 0) noHost) ''./foo.svelte'' ''c:/proj/a.ts'')"
proof -
  let ?e = "exampleEnv False [] (\<lambda>n. 0) noHost"
  have 1: "separator_free ''C:/proj/A.ts''" and 2: "separator_free ''c:/proj/a.ts''"
    by (simp_all add: CACHE_KEY_SEPARATOR_def)
  have 3: "getCanonicalFileName ?e ''C:/proj/A.ts'' = getCanonicalFileName ?e ''c:/proj/a.ts''"
    by (simp add: getCanonicalFileName_def exampleEnv_def createGetCanonicalFileName_def
        toFileNameLowerCase_map foldChar_def fileNameLowerCaseRegExp_def
        toLowerCodeUnit_def upperCaseCodeUnits_def lowerCaseCodeUnits_def)
  have 4: "getCanonicalFileName ?e (ensureRealSvelteFilePath ?e ''./Foo.svelte.ts'') =
           getCanonicalFileName ?e (ensureRealSvelteFilePath ?e ''./foo.svelte'')"
    by (simp add: getCanonicalFileName_def exampleEnv_def createGetCanonicalFileName_def
        toFileNameLowerCase_map foldChar_def fileNameLowerCaseRegExp_def
        toLowerCodeUnit_def upperCaseCodeUnits_def lowerCaseCodeUnits_def endsWith_def toRealSvelteFilePath_def)
  show ?thesis
    using cache_key_injective_up_to_normalisation [OF 1 2, of ?e "''./Foo.svelte.ts''" "''./foo.svelte''"]
      1 2 3 4 by blast
qed

section \<open>Invalidation by resolved path\<close>

lemma exampleCache_wf: "cache_wf (exampleEnv True [] (\<lambda>n. 0) noHost) exampleCache"
  by (simp add: cache_wf_def exampleCache_def getCanonicalFileName_def exampleEnv_def
      createGetCanonicalFileName_def)

text \<open>
  C9. \<^verbatim>\<open>delete\<close> removes only entries that hold a defined record: the confirmed
  unresolved entries of the cache are the same before and after, every entry that
  disappears holds a record, and the containing files added to the pending-invalidation
  set are those of the entries that hold a record resolving to the path.
\<close>

theorem delete_leaves_unresolved_entries:
  assumes "cache_wf e mc"
  shows "filter (\<lambda>(key, val). val = None) (cache (moduleCache_delete e mc path)) =
           filter (\<lambda>(key, val). val = None) (cache mc) \<and>
         (\<forall>key val. (key, val) \<in> set (cache mc) \<and>
                    (key, val) \<notin> set (cache (moduleCache_delete e mc path)) \<longrightarrow> val \<noteq> None) \<and>
         pendingInvalidations (moduleCache_delete e mc path) =
           pendingInvalidations mc \<union>
             containingFilesWhere e (\<lambda>key val. val \<noteq> None \<and> resolvesTo e path val) (cache mc)"
proof -
  let ?mc' = "moduleCache_delete e mc path"
  have c: "cache ?mc' = filter (\<lambda>(key, val). \<not> resolvesTo e path val) (cache mc)"
    and p: "pendingInvalidations ?mc' = pendingInvalidations mc \<union>
              containingFilesWhere e (\<lambda>key val. resolvesTo e path val) (cache mc)"
    by (simp_all add: moduleCache_delete_eq [OF assms])
  have r: "(\<lambda>key val. val \<noteq> None \<and> resolvesTo e path val) = (\<lambda>key val. resolvesTo e path val)"
    by (auto simp: resolvesTo_def fun_eq_iff split: option.splits)
  have 1: "filter (\<lambda>(key, val). val = None) (cache ?mc') =
             filter (\<lambda>(key, val). val = None) (cache mc)"
    unfolding c filter_filter
    by (rule filter_cong [OF refl]) (auto simp: resolvesTo_def)
  have 2: "\<forall>key val. (key, val) \<in> set (cache mc) \<and> (key, val) \<notin> set (cache ?mc') \<longrightarrow>
             val \<noteq> None"
    unfolding c by (auto simp: resolvesTo_def split: option.splits)
  have 3: "pendingInvalidations ?mc' = pendingInvalidations mc \<union>
             containingFilesWhere e (\<lambda>key val. val \<noteq> None \<and> resolvesTo e path val) (cache mc)"
    unfolding r by (rule p)
  show ?thesis using 1 2 3 by (intro conjI)
qed

theorem delete_leaves_unresolved_entries_witness:
  "cache_wf (exampleEnv True [] (\<lambda>n. 0) noHost) exampleCache \<and>
   filter (\<lambda>(key, val). val = None)
     (cache (moduleCache_delete (exampleEnv True [] (\<lambda>n. 0) noHost) exampleCache ''/proj/Bar.ts'')) =
     [(''/proj/a.ts:::./Foo'', None), (''/proj/a.ts:::./Bar'', None)] \<and>
   pendingInvalidations
     (moduleCache_delete (exampleEnv True [] (\<lambda>n. 0) noHost) exampleCache ''/proj/Bar.ts'') =
     {''/proj/b.ts''}"
proof -
  let ?e = "exampleEnv True [] (\<lambda>n. 0) noHost"
  have c: "getCanonicalFileName ?e = (\<lambda>x. x)"
    by (simp add: getCanonicalFileName_def exampleEnv_def createGetCanonicalFileName_def)
  have k: "containingFileOfKey ''/proj/b.ts:::./Bar'' = ''/proj/b.ts''"
    by (simp add: containingFileOfKey_def js_split_def shift_or_empty_def CACHE_KEY_SEPARATOR_def)
  have p: "containingFilesWhere ?e (\<lambda>key val. val \<noteq> None \<and> resolvesTo ?e ''/proj/Bar.ts'' val)
             (cache exampleCache) = {''/proj/b.ts''}"
    by (simp add: containingFilesWhere_def exampleCache_def resolvesTo_def c k)
  note t = delete_leaves_unresolved_entries [OF exampleCache_wf, of "''/proj/Bar.ts''"]
  have a: "filter (\<lambda>(key, val). val = None) (cache exampleCache) =
             [(''/proj/a.ts:::./Foo'', None), (''/proj/a.ts:::./Bar'', None)]"
    by (simp add: exampleCache_def)
  have 1: "filter (\<lambda>(key, val). val = None)
             (cache (moduleCache_delete ?e exampleCache ''/proj/Bar.ts'')) =
           [(''/proj/a.ts:::./Foo'', None), (''/proj/a.ts:::./Bar'', None)]"
    using t [THEN conjunct1] a by simp
  have 2: "pendingInvalidations (moduleCache_delete ?e exampleCache ''/proj/Bar.ts'') =
             {''/proj/b.ts''}"
    using t [THEN conjunct2, THEN conjunct2] p by (simp add: exampleCache_def)
  show ?thesis
    using exampleCache_wf 1 2 by (intro conjI)
qed

section \<open>Invalidation of unresolved entries\<close>

lemma unresolvedCache_wf: "cache_wf e (unresolvedCache e)"
  by (simp add: unresolvedCache_def cache_wf_set cache_wf_new)

lemma unresolvedCache_eq:
  "cache (unresolvedCache (exampleEnv True [] (\<lambda>n. 0) noHost)) =
     [(''/proj/a.ts:::./Foo'', None),
      (''/proj/a.ts:::./Bar'', None),
      (''/proj/b.ts:::./Foo.svelte'',
         Some \<lparr>resolvedFileName = ''/proj/Foo.svelte'', extension = ''.ts'',
               isExternalLibraryImport = None\<rparr>)]"
  by (simp add: unresolvedCache_def moduleCache_set_def FileMap_set_def getKey_def
      newModuleResolutionCache_def exampleEnv_def createGetCanonicalFileName_def
      CACHE_KEY_SEPARATOR_def endsWith_def)

lemma example_stem:
  "fileNameWithoutEnding (exampleEnv True [] (\<lambda>n. 0) noHost) ''/proj/Foo.svelte'' = ''Foo''"
  by (simp add: fileNameWithoutEnding_def exampleEnv_def getCanonicalFileName_def
      createGetCanonicalFileName_def getLastPartOfPath_def js_split_def pop_or_empty_def
      shift_or_empty_def)

lemma separatorCache_eq:
  "separatorCache (exampleEnv True [] (\<lambda>n. 0) noHost) =
     \<lparr>cache =
        [(''/proj/a:::x/c.ts:::./b'', None),
         (''/proj/a:::x/c.ts:::./Foo'',
            Some \<lparr>resolvedFileName = ''/proj/Foo.ts'', extension = ''.ts'',
                  isExternalLibraryImport = None\<rparr>)],
      pendingInvalidations = {}\<rparr>"
  by (simp add: separatorCache_def moduleCache_set_def FileMap_set_def getKey_def
      newModuleResolutionCache_def exampleEnv_def createGetCanonicalFileName_def
      CACHE_KEY_SEPARATOR_def endsWith_def)

lemmas cache_eval_defs =
  moduleCache_deleteUnresolvedResolutionsFromCache_def deleteUnresolved_visit_def
  moduleCache_delete_def delete_visit_def FileMap_delete_def
  fileNameWithoutEnding_def getCanonicalFileName_def getLastPartOfPath_def js_split_def
  pop_or_empty_def shift_or_empty_def second_or_empty_def moduleNameOfKey_def
  containingFileOfKey_def str_includes_def sublist_code FileSet_add_def FileSet_has_def
  moduleCache_has_def moduleCache_get_def FileMap_has_def FileMap_get_def getKey_def
  exampleEnv_def createGetCanonicalFileName_def CACHE_KEY_SEPARATOR_def endsWith_def

text \<open>
  C6. The claim says that exactly the unresolved entries whose specifier contains the
  stem are removed and that the containing file of each is added to the
  pending-invalidation set. The callback reads the specifier and the containing file
  back out of the stored key by splitting it at \<^verbatim>\<open>':::'\<close>, and nothing keeps
  \<^verbatim>\<open>':::'\<close> out of a path. Here \<^verbatim>\<open>./b\<close> is unresolved from the containing file
  \<^verbatim>\<open>/proj/a:::x/c.ts\<close>. The call for \<^verbatim>\<open>/proj/x.ts\<close>, whose stem \<^verbatim>\<open>x\<close> does not
  occur in \<^verbatim>\<open>./b\<close>, removes the entry, and the file it adds to the
  pending-invalidation set is \<^verbatim>\<open>/proj/a\<close>.
\<close>

theorem unrelated_specifier_removed_through_separator:
  "moduleCache_has (exampleEnv True [] (\<lambda>n. 0) noHost)
     (separatorCache (exampleEnv True [] (\<lambda>n. 0) noHost)) ''./b'' ''/proj/a:::x/c.ts'' \<and>
   moduleCache_get (exampleEnv True [] (\<lambda>n. 0) noHost)
     (separatorCache (exampleEnv True [] (\<lambda>n. 0) noHost)) ''./b'' ''/proj/a:::x/c.ts'' = None \<and>
   fileNameWithoutEnding (exampleEnv True [] (\<lambda>n. 0) noHost) ''/proj/x.ts'' = ''x'' \<and>
   \<not> str_includes ''./b'' ''x'' \<and>
   \<not> moduleCache_has (exampleEnv True [] (\<lambda>n. 0) noHost)
       (moduleCache_deleteUnresolvedResolutionsFromCache (exampleEnv True [] (\<lambda>n. 0) noHost)
          (separatorCache (exampleEnv True [] (\<lambda>n. 0) noHost)) ''/proj/x.ts'')
       ''./b'' ''/proj/a:::x/c.ts'' \<and>
   pendingInvalidations
     (moduleCache_deleteUnresolvedResolutionsFromCache (exampleEnv True [] (\<lambda>n. 0) noHost)
        (separatorCache (exampleEnv True [] (\<lambda>n. 0) noHost)) ''/proj/x.ts'') = {''/proj/a''}"
  unfolding separatorCache_eq
  by (simp add: cache_eval_defs)

text \<open>
  C6, as the code has it. On a cache whose stored keys are distinct and canonical,
  \<^verbatim>\<open>deleteUnresolvedResolutionsFromCache\<close> takes the stem of the changed path (the
  text of the case-normalised path after its last slash or backslash, up to the first
  dot of that text) and removes exactly the
  entries that are confirmed unresolved and whose stored key, split at \<^verbatim>\<open>':::'\<close>, has
  the stem in its second piece; the case-normalised first piece of each such key is
  added to the pending-invalidation set, and all other entries stay in place. For a
  containing file free of the separator and a normalised specifier without \<^verbatim>\<open>':::'\<close>
  the two pieces are the case-normalised specifier and containing file. For such a pair,
  \<^verbatim>\<open>has\<close> is true after the call exactly when it was true before and the pair is not
  an unresolved entry whose case-normalised specifier contains the stem; a pair that is
  still cached keeps its value; and when the pair has been removed, its containing file
  is in the pending-invalidation set.
\<close>

theorem deleteUnresolved_removes_exactly_matching:
  assumes "cache_wf e mc"
  shows "fileNameWithoutEnding e path =
           takeWhile (\<lambda>c. c \<noteq> CHR ''.'')
             (rev (takeWhile (\<lambda>c. c \<noteq> CHR ''/'' \<and> c \<noteq> CHR 0x5C)
                     (rev (getCanonicalFileName e path)))) \<and>
         cache (moduleCache_deleteUnresolvedResolutionsFromCache e mc path) =
           filter (\<lambda>(key, val). \<not> (val = None \<and>
                     str_includes (moduleNameOfKey key) (fileNameWithoutEnding e path)))
             (cache mc) \<and>
         pendingInvalidations (moduleCache_deleteUnresolvedResolutionsFromCache e mc path) =
           pendingInvalidations mc \<union>
             containingFilesWhere e
               (\<lambda>key val. val = None \<and>
                  str_includes (moduleNameOfKey key) (fileNameWithoutEnding e path))
               (cache mc) \<and>
         (\<forall>m c. separator_free c \<and>
                \<not> sublist CACHE_KEY_SEPARATOR (ensureRealSvelteFilePath e m) \<longrightarrow>
            moduleNameOfKey (storedKey e m c) =
              getCanonicalFileName e (ensureRealSvelteFilePath e m) \<and>
            containingFileOfKey (storedKey e m c) = getCanonicalFileName e c \<and>
            (moduleCache_has e (moduleCache_deleteUnresolvedResolutionsFromCache e mc path) m c
               \<longleftrightarrow>
             moduleCache_has e mc m c \<and>
             \<not> (moduleCache_get e mc m c = None \<and>
                str_includes (getCanonicalFileName e (ensureRealSvelteFilePath e m))
                  (fileNameWithoutEnding e path))) \<and>
            (moduleCache_has e (moduleCache_deleteUnresolvedResolutionsFromCache e mc path) m c
               \<longrightarrow>
             moduleCache_get e (moduleCache_deleteUnresolvedResolutionsFromCache e mc path) m c =
               moduleCache_get e mc m c) \<and>
            (moduleCache_has e mc m c \<and>
             \<not> moduleCache_has e (moduleCache_deleteUnresolvedResolutionsFromCache e mc path) m c
               \<longrightarrow>
             oneOfResolvedModuleChanged e
               (moduleCache_deleteUnresolvedResolutionsFromCache e mc path) c))"
proof -
  let ?stem = "fileNameWithoutEnding e path"
  let ?mc' = "moduleCache_deleteUnresolvedResolutionsFromCache e mc path"
  let ?P = "\<lambda>(key, val). \<not> (val = None \<and> str_includes (moduleNameOfKey key) ?stem)"
  have u: "unresolvedMatching ?stem =
             (\<lambda>key val. val = None \<and> str_includes (moduleNameOfKey key) ?stem)"
    by (simp add: unresolvedMatching_def fun_eq_iff)
  have 1: "?stem =
             takeWhile (\<lambda>c. c \<noteq> CHR ''.'')
               (rev (takeWhile (\<lambda>c. c \<noteq> CHR ''/'' \<and> c \<noteq> CHR 0x5C)
                       (rev (getCanonicalFileName e path))))"
    by (simp only: fileNameWithoutEnding_takeWhile getLastPartOfPath_takeWhile)
  have 2: "cache ?mc' = filter ?P (cache mc)"
    by (simp add: moduleCache_deleteUnresolved_eq [OF assms] u)
  have 3: "pendingInvalidations ?mc' =
           pendingInvalidations mc \<union>
             containingFilesWhere e
               (\<lambda>key val. val = None \<and> str_includes (moduleNameOfKey key) ?stem) (cache mc)"
    by (simp add: moduleCache_deleteUnresolved_eq [OF assms] u)
  have d: "distinct (map fst (cache mc))"
    using assms by (simp add: cache_wf_def)
  have 4: "moduleNameOfKey (storedKey e m c) =
              getCanonicalFileName e (ensureRealSvelteFilePath e m) \<and>
           containingFileOfKey (storedKey e m c) = getCanonicalFileName e c \<and>
           (moduleCache_has e ?mc' m c \<longleftrightarrow>
              moduleCache_has e mc m c \<and>
              \<not> (moduleCache_get e mc m c = None \<and>
                 str_includes (getCanonicalFileName e (ensureRealSvelteFilePath e m)) ?stem)) \<and>
           (moduleCache_has e ?mc' m c \<longrightarrow>
              moduleCache_get e ?mc' m c = moduleCache_get e mc m c) \<and>
           (moduleCache_has e mc m c \<and> \<not> moduleCache_has e ?mc' m c \<longrightarrow>
              oneOfResolvedModuleChanged e ?mc' c)"
    if h: "separator_free c \<and> \<not> sublist CACHE_KEY_SEPARATOR (ensureRealSvelteFilePath e m)"
    for m c
  proof -
    let ?k = "storedKey e m c"
    from h have sf: "separator_free c"
      and ns: "\<not> sublist CACHE_KEY_SEPARATOR (ensureRealSvelteFilePath e m)" by simp_all
    have mn: "moduleNameOfKey ?k = getCanonicalFileName e (ensureRealSvelteFilePath e m)"
      and cf: "containingFileOfKey ?k = getCanonicalFileName e c"
      using storedKey_parts [OF sf] ns by simp_all
    have look: "map_of (cache ?mc') ?k =
                  (case map_of (cache mc) ?k of None \<Rightarrow> None
                   | Some v \<Rightarrow> if ?P (?k, v) then Some v else None)"
      unfolding 2 by (rule lookup_after_filter [OF d])
    have has: "moduleCache_has e x m c \<longleftrightarrow> map_of (cache x) ?k \<noteq> None"
      and get: "moduleCache_get e x m c =
                  (case map_of (cache x) ?k of None \<Rightarrow> None | Some val \<Rightarrow> val)" for x
      by (simp_all add: moduleCache_has_def moduleCache_get_def FileMap_has_def FileMap_get_def
          storedKey_def getCanonicalFileName_def)
    have a: "moduleCache_has e ?mc' m c \<longleftrightarrow>
              moduleCache_has e mc m c \<and>
              \<not> (moduleCache_get e mc m c = None \<and>
                 str_includes (getCanonicalFileName e (ensureRealSvelteFilePath e m)) ?stem)"
      by (auto simp: has get look mn split: option.splits)
    have b: "moduleCache_has e ?mc' m c \<longrightarrow>
               moduleCache_get e ?mc' m c = moduleCache_get e mc m c"
      by (auto simp: has get look split: option.splits if_splits)
    have c: "oneOfResolvedModuleChanged e ?mc' c"
      if "moduleCache_has e mc m c" "\<not> moduleCache_has e ?mc' m c"
    proof -
      from that obtain v where v: "map_of (cache mc) ?k = Some v" and "\<not> ?P (?k, v)"
        by (auto simp: has look split: option.splits if_splits)
      then have "(?k, v) \<in> set (cache mc)"
        and "v = None \<and> str_includes (moduleNameOfKey ?k) ?stem"
        by (auto dest: map_of_SomeD)
      then have "getCanonicalFileName e (containingFileOfKey ?k) \<in>
                   containingFilesWhere e
                     (\<lambda>key val. val = None \<and> str_includes (moduleNameOfKey key) ?stem)
                     (cache mc)"
        by (force simp: containingFilesWhere_def)
      then show ?thesis
        by (simp add: oneOfResolvedModuleChanged_def FileSet_has_def 3 cf getCanonical_idem
            getCanonicalFileName_def [symmetric])
    qed
    show ?thesis using mn cf a b c by blast
  qed
  show ?thesis using 1 2 3 4 by (intro conjI allI impI) blast+
qed

theorem deleteUnresolved_removes_exactly_matching_witness:
  "cache_wf (exampleEnv True [] (\<lambda>n. 0) noHost)
     (unresolvedCache (exampleEnv True [] (\<lambda>n. 0) noHost)) \<and>
   separator_free ''/proj/a.ts'' \<and>
   \<not> sublist CACHE_KEY_SEPARATOR
       (ensureRealSvelteFilePath (exampleEnv True [] (\<lambda>n. 0) noHost) ''./Foo'') \<and>
   fileNameWithoutEnding (exampleEnv True [] (\<lambda>n. 0) noHost) ''/proj/Foo.svelte'' = ''Foo'' \<and>
   cache (moduleCache_deleteUnresolvedResolutionsFromCache (exampleEnv True [] (\<lambda>n. 0) noHost)
            (unresolvedCache (exampleEnv True [] (\<lambda>n. 0) noHost)) ''/proj/Foo.svelte'') =
     [(''/proj/a.ts:::./Bar'', None),
      (''/proj/b.ts:::./Foo.svelte'',
         Some \<lparr>resolvedFileName = ''/proj/Foo.svelte'', extension = ''.ts'',
               isExternalLibraryImport = None\<rparr>)] \<and>
   moduleCache_has (exampleEnv True [] (\<lambda>n. 0) noHost)
     (unresolvedCache (exampleEnv True [] (\<lambda>n. 0) noHost)) ''./Foo'' ''/proj/a.ts'' \<and>
   \<not> moduleCache_has (exampleEnv True [] (\<lambda>n. 0) noHost)
       (moduleCache_deleteUnresolvedResolutionsFromCache (exampleEnv True [] (\<lambda>n. 0) noHost)
          (unresolvedCache (exampleEnv True [] (\<lambda>n. 0) noHost)) ''/proj/Foo.svelte'')
       ''./Foo'' ''/proj/a.ts'' \<and>
   oneOfResolvedModuleChanged (exampleEnv True [] (\<lambda>n. 0) noHost)
     (moduleCache_deleteUnresolvedResolutionsFromCache (exampleEnv True [] (\<lambda>n. 0) noHost)
        (unresolvedCache (exampleEnv True [] (\<lambda>n. 0) noHost)) ''/proj/Foo.svelte'')
     ''/proj/a.ts''"
proof -
  let ?e = "exampleEnv True [] (\<lambda>n. 0) noHost"
  note t = deleteUnresolved_removes_exactly_matching
             [OF unresolvedCache_wf [of ?e], of "''/proj/Foo.svelte''"]
  have m1: "moduleNameOfKey ''/proj/a.ts:::./Foo'' = ''./Foo''"
    and m2: "moduleNameOfKey ''/proj/a.ts:::./Bar'' = ''./Bar''"
    by (simp_all add: moduleNameOfKey_def js_split_def second_or_empty_def CACHE_KEY_SEPARATOR_def)
  have i1: "str_includes ''./Foo'' ''Foo''" and i2: "\<not> str_includes ''./Bar'' ''Foo''"
    by (simp_all add: str_includes_def sublist_code)
  have c: "cache (moduleCache_deleteUnresolvedResolutionsFromCache ?e (unresolvedCache ?e)
                 ''/proj/Foo.svelte'') =
          [(''/proj/a.ts:::./Bar'', None),
           (''/proj/b.ts:::./Foo.svelte'',
              Some \<lparr>resolvedFileName = ''/proj/Foo.svelte'', extension = ''.ts'',
                    isExternalLibraryImport = None\<rparr>)]"
    unfolding t [THEN conjunct2, THEN conjunct1] unresolvedCache_eq example_stem
    by (simp add: m1 m2 i1 i2)
  have sf: "separator_free ''/proj/a.ts''"
    by (simp add: CACHE_KEY_SEPARATOR_def)
  have ns: "\<not> sublist CACHE_KEY_SEPARATOR (ensureRealSvelteFilePath ?e ''./Foo'')"
    by (simp add: exampleEnv_def endsWith_def CACHE_KEY_SEPARATOR_def sublist_code)
  note u = t [THEN conjunct2, THEN conjunct2, THEN conjunct2, rule_format,
              OF conjI [OF sf ns]]
  have has: "moduleCache_has ?e (unresolvedCache ?e) ''./Foo'' ''/proj/a.ts''"
    unfolding moduleCache_has_def unresolvedCache_eq
    by (simp add: FileMap_has_def getKey_def exampleEnv_def
        createGetCanonicalFileName_def CACHE_KEY_SEPARATOR_def endsWith_def)
  have get: "moduleCache_get ?e (unresolvedCache ?e) ''./Foo'' ''/proj/a.ts'' = None"
    unfolding moduleCache_get_def unresolvedCache_eq
    by (simp add: FileMap_get_def getKey_def exampleEnv_def
        createGetCanonicalFileName_def CACHE_KEY_SEPARATOR_def endsWith_def)
  have inc: "str_includes (getCanonicalFileName ?e (ensureRealSvelteFilePath ?e ''./Foo''))
               (fileNameWithoutEnding ?e ''/proj/Foo.svelte'')"
    unfolding example_stem
    by (simp add: exampleEnv_def endsWith_def getCanonicalFileName_def
        createGetCanonicalFileName_def str_includes_def sublist_code)
  have gone: "\<not> moduleCache_has ?e
       (moduleCache_deleteUnresolvedResolutionsFromCache ?e (unresolvedCache ?e)
          ''/proj/Foo.svelte'') ''./Foo'' ''/proj/a.ts''"
    using u [THEN conjunct2, THEN conjunct2, THEN conjunct1] has get inc by blast
  have rep: "oneOfResolvedModuleChanged ?e
     (moduleCache_deleteUnresolvedResolutionsFromCache ?e (unresolvedCache ?e)
        ''/proj/Foo.svelte'') ''/proj/a.ts''"
    using u [THEN conjunct2, THEN conjunct2, THEN conjunct2, THEN conjunct2] has gone by blast
  show ?thesis
    using unresolvedCache_wf [of ?e] sf ns example_stem c has gone rep by (intro conjI)
qed

text \<open>
  C10. For every path, the last path segment is the text of the case-normalised path
  after its last slash or backslash, and the stem is the part of that segment before
  its first dot. When the last segment begins with a dot the stem is empty, every
  specifier contains it, and the call removes every confirmed-unresolved entry of a
  cache whose stored keys are distinct and canonical, and nothing else.
\<close>

theorem dot_file_removes_every_unresolved_entry:
  "getLastPartOfPath (getCanonicalFileName e path) =
     rev (takeWhile (\<lambda>c. c \<noteq> CHR ''/'' \<and> c \<noteq> CHR 0x5C)
            (rev (getCanonicalFileName e path))) \<and>
   fileNameWithoutEnding e path =
     takeWhile (\<lambda>c. c \<noteq> CHR ''.'') (getLastPartOfPath (getCanonicalFileName e path)) \<and>
   (prefix ''.'' (getLastPartOfPath (getCanonicalFileName e path)) \<longrightarrow>
      fileNameWithoutEnding e path = [] \<and>
      (\<forall>key. str_includes (moduleNameOfKey key) (fileNameWithoutEnding e path)) \<and>
      (cache_wf e mc \<longrightarrow>
         cache (moduleCache_deleteUnresolvedResolutionsFromCache e mc path) =
           filter (\<lambda>(key, val). val \<noteq> None) (cache mc) \<and>
         pendingInvalidations (moduleCache_deleteUnresolvedResolutionsFromCache e mc path) =
           pendingInvalidations mc \<union>
             containingFilesWhere e (\<lambda>key val. val = None) (cache mc)))"
proof (intro conjI impI)
  show "getLastPartOfPath (getCanonicalFileName e path) =
     rev (takeWhile (\<lambda>c. c \<noteq> CHR ''/'' \<and> c \<noteq> CHR 0x5C)
            (rev (getCanonicalFileName e path)))"
    by (rule getLastPartOfPath_takeWhile)
  show 1: "fileNameWithoutEnding e path =
     takeWhile (\<lambda>c. c \<noteq> CHR ''.'') (getLastPartOfPath (getCanonicalFileName e path))"
    by (rule fileNameWithoutEnding_takeWhile)
  assume "prefix ''.'' (getLastPartOfPath (getCanonicalFileName e path))"
  then obtain rest where
    "getLastPartOfPath (getCanonicalFileName e path) = CHR ''.'' # rest"
    by (auto simp: prefix_def)
  with 1 show stem: "fileNameWithoutEnding e path = []" by simp
  then show "\<forall>key. str_includes (moduleNameOfKey key) (fileNameWithoutEnding e path)"
    by (simp add: str_includes_def)
  have u: "unresolvedMatching [] = (\<lambda>key val. val = None)"
    by (simp add: unresolvedMatching_def fun_eq_iff str_includes_def)
  assume wf: "cache_wf e mc"
  show "cache (moduleCache_deleteUnresolvedResolutionsFromCache e mc path) =
           filter (\<lambda>(key, val). val \<noteq> None) (cache mc)"
    by (simp add: moduleCache_deleteUnresolved_eq [OF wf] stem u)
  show "pendingInvalidations (moduleCache_deleteUnresolvedResolutionsFromCache e mc path) =
           pendingInvalidations mc \<union>
             containingFilesWhere e (\<lambda>key val. val = None) (cache mc)"
    by (simp add: moduleCache_deleteUnresolved_eq [OF wf] stem u)
qed

theorem dot_file_removes_every_unresolved_entry_witness:
  "fileNameWithoutEnding (exampleEnv True [] (\<lambda>n. 0) noHost) ''/proj/sub/Foo.test.ts'' = ''Foo'' \<and>
   fileNameWithoutEnding (exampleEnv False [] (\<lambda>n. 0) noHost) (''C:'' @ CHR 0x5C # ''proj'' @ CHR 0x5C # ''Foo.ts'') = ''foo'' \<and>
   prefix ''.'' (getLastPartOfPath
      (getCanonicalFileName (exampleEnv True [] (\<lambda>n. 0) noHost) ''/proj/.gitignore'')) \<and>
   cache_wf (exampleEnv True [] (\<lambda>n. 0) noHost)
     (unresolvedCache (exampleEnv True [] (\<lambda>n. 0) noHost)) \<and>
   fileNameWithoutEnding (exampleEnv True [] (\<lambda>n. 0) noHost) ''/proj/.gitignore'' = [] \<and>
   cache (moduleCache_deleteUnresolvedResolutionsFromCache (exampleEnv True [] (\<lambda>n. 0) noHost)
            (unresolvedCache (exampleEnv True [] (\<lambda>n. 0) noHost)) ''/proj/.gitignore'') =
     [(''/proj/b.ts:::./Foo.svelte'',
         Some \<lparr>resolvedFileName = ''/proj/Foo.svelte'', extension = ''.ts'',
               isExternalLibraryImport = None\<rparr>)]"
proof -
  let ?e = "exampleEnv True [] (\<lambda>n. 0) noHost"
  let ?i = "exampleEnv False [] (\<lambda>n. 0) noHost"
  have s1: "fileNameWithoutEnding ?e ''/proj/sub/Foo.test.ts'' = ''Foo''"
    using dot_file_removes_every_unresolved_entry
            [of ?e "''/proj/sub/Foo.test.ts''" newModuleResolutionCache, THEN conjunct2, THEN conjunct1]
    by (simp add: exampleEnv_def getCanonicalFileName_def createGetCanonicalFileName_def
        getLastPartOfPath_def js_split_def pop_or_empty_def)
  have s2: "fileNameWithoutEnding ?i (''C:'' @ CHR 0x5C # ''proj'' @ CHR 0x5C # ''Foo.ts'') = ''foo''"
    using dot_file_removes_every_unresolved_entry
            [of ?i "(''C:'' @ CHR 0x5C # ''proj'' @ CHR 0x5C # ''Foo.ts'')" newModuleResolutionCache, THEN conjunct2, THEN conjunct1]
    by (simp add: exampleEnv_def getCanonicalFileName_def createGetCanonicalFileName_def
        getLastPartOfPath_def js_split_def pop_or_empty_def toFileNameLowerCase_map foldChar_def
        fileNameLowerCaseRegExp_def toLowerCodeUnit_def upperCaseCodeUnits_def
        lowerCaseCodeUnits_def)
  have h: "prefix ''.'' (getLastPartOfPath (getCanonicalFileName ?e ''/proj/.gitignore''))"
    by (simp add: exampleEnv_def getCanonicalFileName_def createGetCanonicalFileName_def
        getLastPartOfPath_def js_split_def pop_or_empty_def)
  note t = dot_file_removes_every_unresolved_entry
             [of ?e "''/proj/.gitignore''" "unresolvedCache ?e", THEN conjunct2, THEN conjunct2,
              rule_format, OF h]
  note u = t [THEN conjunct2, THEN conjunct2, rule_format, OF unresolvedCache_wf]
  have c: "cache (moduleCache_deleteUnresolvedResolutionsFromCache ?e (unresolvedCache ?e)
                 ''/proj/.gitignore'') =
          [(''/proj/b.ts:::./Foo.svelte'',
              Some \<lparr>resolvedFileName = ''/proj/Foo.svelte'', extension = ''.ts'',
                    isExternalLibraryImport = None\<rparr>)]"
    unfolding u [THEN conjunct1] unresolvedCache_eq by simp
  show ?thesis
    using s1 s2 h unresolvedCache_wf [of ?e] t [THEN conjunct1] c by (intro conjI)
qed

section \<open>Batch resolution\<close>

lemmas demo_defs =
  demoEnv_def exampleEnv_def demoResolve_def demoObjects_def
  resolveModuleNames_def resolveOne_def resolveModuleName_def cacheResolutionWithFailedLookup_def
  impliedNodeFormatResolver_resolve_def objectOf_def
  moduleCache_has_def moduleCache_get_def moduleCache_set_def FileMap_has_def FileMap_get_def
  FileMap_set_def getKey_def CACHE_KEY_SEPARATOR_def createGetCanonicalFileName_def
  createSvelteModuleLoader_def newModuleResolutionCache_def endsWith_def
  toRealSvelteFilePath_def Let_def split_beta

lemma resolveModuleName_frame:
  "moduleCache (snd (resolveModuleName e s name c sf i red opt)) = moduleCache s"
  "failedLocationInvalidated (snd (resolveModuleName e s name c sf i red opt)) =
     failedLocationInvalidated s"
  "pendingFailedLocationCheck (snd (resolveModuleName e s name c sf i red opt)) =
     pendingFailedLocationCheck s"
  by (simp_all add: resolveModuleName_def Let_def split: option.splits)

lemma cacheResolutionWithFailedLookup_frame:
  "moduleCache (cacheResolutionWithFailedLookup e s r c) = moduleCache s"
  "failedLocationInvalidated (cacheResolutionWithFailedLookup e s r c) =
     failedLocationInvalidated s"
  "pendingFailedLocationCheck (cacheResolutionWithFailedLookup e s r c) =
     pendingFailedLocationCheck s"
  "remappedObject (cacheResolutionWithFailedLookup e s r c) = remappedObject s"
  by (simp_all add: cacheResolutionWithFailedLookup_def Let_def split: option.splits)

lemma objectOf_cacheResolution:
  "objectOf e (cacheResolutionWithFailedLookup e s r c) r' = objectOf e s r'"
  by (simp add: objectOf_def cacheResolutionWithFailedLookup_frame split: ObjectRef.splits)

lemma resolveModuleName_result:
  "resolvedModule
     (objectOf e (snd (resolveModuleName e s name c sf i red opt))
        (fst (resolveModuleName e s name c sf i red opt))) =
   map_option (remap e) (resolvedModule (hostAnswer e name c sf i red opt))"
  by (simp add: resolveModuleName_def hostAnswer_def remap_def Let_def objectOf_def
      split: option.splits)

lemma resolveOne_miss:
  assumes "\<not> moduleCache_has e (moduleCache s) m c"
  shows "fst (resolveOne e c red opt sf m i s) =
           map_option (remap e) (resolvedModule (hostAnswer e m c sf i red opt))"
    and "moduleCache (snd (resolveOne e c red opt sf m i s)) =
           moduleCache_set e (moduleCache s) m c
             (map_option (remap e) (resolvedModule (hostAnswer e m c sf i red opt)))"
  using assms resolveModuleName_result [of e s m c sf i red opt]
  by (simp_all add: resolveOne_def Let_def split_beta objectOf_cacheResolution
      cacheResolutionWithFailedLookup_frame resolveModuleName_frame)

lemma resolveOne_hit:
  assumes "moduleCache_has e (moduleCache s) m c"
  shows "resolveOne e c red opt sf m i s = (moduleCache_get e (moduleCache s) m c, s)"
  using assms by (simp add: resolveOne_def)

lemma resolveOne_frame:
  "failedLocationInvalidated (snd (resolveOne e c red opt sf m i s)) = failedLocationInvalidated s"
  "pendingFailedLocationCheck (snd (resolveOne e c red opt sf m i s)) = pendingFailedLocationCheck s"
  "pendingInvalidations (moduleCache (snd (resolveOne e c red opt sf m i s))) =
     pendingInvalidations (moduleCache s)"
  by (simp_all add: resolveOne_def Let_def split_beta cacheResolutionWithFailedLookup_frame
      resolveModuleName_frame moduleCache_set_def)

lemma mapFrom_append:
  "mapFrom f k (xs @ ys) s =
     (fst (mapFrom f k xs s) @ fst (mapFrom f (k + length xs) ys (snd (mapFrom f k xs s))),
      snd (mapFrom f (k + length xs) ys (snd (mapFrom f k xs s))))"
  by (induction xs arbitrary: k s) (simp_all add: split_beta Let_def)

lemma mapFrom_length: "length (fst (mapFrom f k xs s)) = length xs"
  by (induction xs arbitrary: k s) (simp_all add: split_beta Let_def)

lemma mapFrom_nth:
  "i < length xs \<Longrightarrow>
     fst (mapFrom f k xs s) ! i = fst (f (xs ! i) (k + i) (snd (mapFrom f k (take i xs) s)))"
proof (induction xs arbitrary: k s i)
  case Nil
  then show ?case by simp
next
  case (Cons x xs)
  show ?case
  proof (cases i)
    case 0
    then show ?thesis by (simp add: split_beta Let_def)
  next
    case (Suc j)
    with Cons.prems have "j < length xs" by simp
    from Cons.IH [OF this, of "Suc k" "snd (f x k s)"] show ?thesis
      by (simp add: Suc split_beta Let_def)
  qed
qed

lemma mapFrom_invariant:
  assumes "\<And>m i s. P s \<Longrightarrow> P (snd (f m i s))" and "P s"
  shows "P (snd (mapFrom f k xs s))"
  using assms(2)
  by (induction xs arbitrary: k s) (simp_all add: split_beta Let_def assms(1))

lemma resolveOne_keeps_entry:
  assumes "map_of (cache (moduleCache s)) k = Some v"
  shows "map_of (cache (moduleCache (snd (resolveOne e c red opt sf m i s)))) k = Some v"
proof (cases "moduleCache_has e (moduleCache s) m c")
  case True
  then show ?thesis using assms by (simp add: resolveOne_hit)
next
  case False
  then have "map_of (cache (moduleCache s))
               (createGetCanonicalFileName (sysCaseSensitive e) (getKey e m c)) = None"
    by (simp add: moduleCache_has_def FileMap_has_def)
  with assms have "createGetCanonicalFileName (sysCaseSensitive e) (getKey e m c) \<noteq> k"
    by auto
  then show ?thesis
    using assms
    by (simp add: resolveOne_miss(2) [OF False] moduleCache_set_def FileMap_set_def
        update_conv')
qed

lemma resolveOne_keeps_absent:
  assumes "map_of (cache (moduleCache s)) k = None"
    and "getCanonicalFileName e (getKey e m c) \<noteq> k"
  shows "map_of (cache (moduleCache (snd (resolveOne e c red opt sf m i s)))) k = None"
proof (cases "moduleCache_has e (moduleCache s) m c")
  case True
  then show ?thesis using assms by (simp add: resolveOne_hit)
next
  case False
  show ?thesis
    using assms
    by (simp add: resolveOne_miss(2) [OF False] moduleCache_set_def FileMap_set_def
        update_conv' getCanonicalFileName_def)
qed

lemma resolveModuleNames_keeps_entry:
  assumes "map_of (cache (moduleCache s)) k = Some v"
  shows "map_of (cache (moduleCache
           (snd (mapFrom (resolveOne e c red opt sf) j xs s)))) k = Some v"
  by (rule mapFrom_invariant
        [where P = "\<lambda>s. map_of (cache (moduleCache s)) k = Some v"])
     (simp_all add: resolveOne_keeps_entry assms)

lemma resolveModuleNames_split:
  assumes i: "i < length names"
  shows "fst (resolveModuleNames e s names c red opt sf) ! i =
           fst (resolveOne e c red opt sf (names ! i) i
                  (snd (resolveModuleNames e s (take i names) c red opt sf)))"
    and "snd (resolveModuleNames e s names c red opt sf) =
           snd (mapFrom (resolveOne e c red opt sf) (Suc i) (drop (Suc i) names)
                  (snd (resolveOne e c red opt sf (names ! i) i
                     (snd (resolveModuleNames e s (take i names) c red opt sf)))))"
proof -
  show "fst (resolveModuleNames e s names c red opt sf) ! i =
           fst (resolveOne e c red opt sf (names ! i) i
                  (snd (resolveModuleNames e s (take i names) c red opt sf)))"
    using mapFrom_nth [OF i, of "resolveOne e c red opt sf" 0 s]
    by (simp add: resolveModuleNames_def)
  have "mapFrom (resolveOne e c red opt sf) 0 names s =
          mapFrom (resolveOne e c red opt sf) 0
            (take i names @ names ! i # drop (Suc i) names) s"
    using id_take_nth_drop [OF i] by simp
  then show "snd (resolveModuleNames e s names c red opt sf) =
           snd (mapFrom (resolveOne e c red opt sf) (Suc i) (drop (Suc i) names)
                  (snd (resolveOne e c red opt sf (names ! i) i
                     (snd (resolveModuleNames e s (take i names) c red opt sf)))))"
    using i
    by (simp add: resolveModuleNames_def mapFrom_append split_beta Let_def min_def)
qed

lemma resolveModuleNames_fresh:
  assumes i: "i < length names"
    and miss: "\<not> moduleCache_has e
                 (moduleCache (snd (resolveModuleNames e s (take i names) c red opt sf)))
                 (names ! i) c"
  shows "fst (resolveModuleNames e s names c red opt sf) ! i =
           map_option (remap e) (resolvedModule (hostAnswer e (names ! i) c sf i red opt))"
    and "map_of (cache (moduleCache (snd (resolveModuleNames e s names c red opt sf))))
           (storedKey e (names ! i) c) =
           Some (map_option (remap e)
                   (resolvedModule (hostAnswer e (names ! i) c sf i red opt)))"
proof -
  let ?si = "snd (resolveModuleNames e s (take i names) c red opt sf)"
  show "fst (resolveModuleNames e s names c red opt sf) ! i =
           map_option (remap e) (resolvedModule (hostAnswer e (names ! i) c sf i red opt))"
    by (simp add: resolveModuleNames_split(1) [OF i] resolveOne_miss(1) [OF miss])
  have "map_of (cache (moduleCache (snd (resolveOne e c red opt sf (names ! i) i ?si))))
          (storedKey e (names ! i) c) =
        Some (map_option (remap e)
                (resolvedModule (hostAnswer e (names ! i) c sf i red opt)))"
    by (simp add: resolveOne_miss(2) [OF miss] moduleCache_set_def FileMap_set_def
        update_conv' storedKey_def getCanonicalFileName_def)
  then show "map_of (cache (moduleCache (snd (resolveModuleNames e s names c red opt sf))))
           (storedKey e (names ! i) c) =
           Some (map_option (remap e)
                   (resolvedModule (hostAnswer e (names ! i) c sf i red opt)))"
    unfolding resolveModuleNames_split(2) [OF i]
    by (rule resolveModuleNames_keeps_entry)
qed

lemma resolveModuleNames_cache_wf:
  assumes "cache_wf e (moduleCache s)"
  shows "cache_wf e (moduleCache (snd (resolveModuleNames e s names c red opt sf)))"
proof -
  have step: "cache_wf e (moduleCache (snd (resolveOne e c red opt sf m i s0)))"
    if "cache_wf e (moduleCache s0)" for m i s0
  proof (cases "moduleCache_has e (moduleCache s0) m c")
    case True
    then show ?thesis using that by (simp add: resolveOne_hit)
  next
    case False
    then show ?thesis using that by (simp add: resolveOne_miss(2) cache_wf_set)
  qed
  show ?thesis
    unfolding resolveModuleNames_def
    by (rule mapFrom_invariant [where P = "\<lambda>s. cache_wf e (moduleCache s)"])
       (simp_all add: step assms)
qed

text \<open>
  C8. \<^verbatim>\<open>resolveModuleNames\<close> returns one result per specifier, in the order of the
  input: the result at position \<open>i\<close> is the outcome for the \<open>i\<close>-th specifier in the state
  the batch has reached there, that is the cached value when the specifier is a cache
  hit and the (remapped) answer of the host for that specifier and index when it is
  freshly resolved.
\<close>

theorem resolveModuleNames_positional:
  "length (fst (resolveModuleNames e s names c red opt sf)) = length names \<and>
   (\<forall>i<length names.
      fst (resolveModuleNames e s names c red opt sf) ! i =
        (if moduleCache_has e
              (moduleCache (snd (resolveModuleNames e s (take i names) c red opt sf)))
              (names ! i) c
         then moduleCache_get e
                (moduleCache (snd (resolveModuleNames e s (take i names) c red opt sf)))
                (names ! i) c
         else map_option (remap e) (resolvedModule (hostAnswer e (names ! i) c sf i red opt))))"
proof (intro conjI allI impI)
  show "length (fst (resolveModuleNames e s names c red opt sf)) = length names"
    by (simp add: resolveModuleNames_def mapFrom_length)
next
  fix i assume i: "i < length names"
  let ?si = "snd (resolveModuleNames e s (take i names) c red opt sf)"
  have "fst (resolveModuleNames e s names c red opt sf) ! i =
          fst (resolveOne e c red opt sf (names ! i) i ?si)"
    using mapFrom_nth [OF i, of "resolveOne e c red opt sf" 0 s]
    by (simp add: resolveModuleNames_def)
  then show "fst (resolveModuleNames e s names c red opt sf) ! i =
        (if moduleCache_has e (moduleCache ?si) (names ! i) c
         then moduleCache_get e (moduleCache ?si) (names ! i) c
         else map_option (remap e) (resolvedModule (hostAnswer e (names ! i) c sf i red opt)))"
    by (simp add: resolveOne_hit resolveOne_miss(1))
qed

lemma removal_stable_absent: "removal_stable (\<lambda>mc. map_of (cache mc) k = None)"
  by (simp add: removal_stable_def FileMap_delete_def delete_conv')

lemma removal_stable_pending: "removal_stable (\<lambda>mc. x \<in> pendingInvalidations mc)"
  by (simp add: removal_stable_def FileSet_add_def)

theorem resolveModuleNames_positional_witness:
  "(2::nat) < length [''lib'', ''./Widget'', ''lib''] \<and>
   moduleCache_has (demoEnv [])
     (moduleCache (snd (resolveModuleNames (demoEnv []) createSvelteModuleLoader
        (take 2 [''lib'', ''./Widget'', ''lib'']) ''/proj/a.ts'' None 0 None)))
     ([''lib'', ''./Widget'', ''lib''] ! 2) ''/proj/a.ts'' \<and>
   fst (resolveModuleNames (demoEnv []) createSvelteModuleLoader
          [''lib'', ''./Widget'', ''lib''] ''/proj/a.ts'' None 0 None) ! 2 =
     moduleCache_get (demoEnv [])
       (moduleCache (snd (resolveModuleNames (demoEnv []) createSvelteModuleLoader
          (take 2 [''lib'', ''./Widget'', ''lib'']) ''/proj/a.ts'' None 0 None)))
       ([''lib'', ''./Widget'', ''lib''] ! 2) ''/proj/a.ts'' \<and>
   fst (resolveModuleNames (demoEnv []) createSvelteModuleLoader
          [''lib'', ''./Widget'', ''lib''] ''/proj/a.ts'' None 0 None) =
     [Some \<lparr>resolvedFileName = ''/proj/node_modules/lib/index.ts'', extension = ''.ts'',
            isExternalLibraryImport = Some True\<rparr>,
      None,
      Some \<lparr>resolvedFileName = ''/proj/node_modules/lib/index.ts'', extension = ''.ts'',
            isExternalLibraryImport = Some True\<rparr>]"
proof -
  let ?names = "[''lib'', ''./Widget'', ''lib'']"
  have i: "(2::nat) < length ?names" by simp
  have hit: "moduleCache_has (demoEnv [])
     (moduleCache (snd (resolveModuleNames (demoEnv []) createSvelteModuleLoader
        (take 2 ?names) ''/proj/a.ts'' None 0 None))) (?names ! 2) ''/proj/a.ts''"
    by (simp add: demo_defs numeral_2_eq_2)
  have all: "fst (resolveModuleNames (demoEnv []) createSvelteModuleLoader
          ?names ''/proj/a.ts'' None 0 None) =
     [Some \<lparr>resolvedFileName = ''/proj/node_modules/lib/index.ts'', extension = ''.ts'',
            isExternalLibraryImport = Some True\<rparr>,
      None,
      Some \<lparr>resolvedFileName = ''/proj/node_modules/lib/index.ts'', extension = ''.ts'',
            isExternalLibraryImport = Some True\<rparr>]"
    by (simp add: demo_defs)
  note t = resolveModuleNames_positional
             [of "demoEnv []" createSvelteModuleLoader ?names "''/proj/a.ts''" None 0 None,
              THEN conjunct2, rule_format, OF i]
  have "fst (resolveModuleNames (demoEnv []) createSvelteModuleLoader
          ?names ''/proj/a.ts'' None 0 None) ! 2 =
     moduleCache_get (demoEnv [])
       (moduleCache (snd (resolveModuleNames (demoEnv []) createSvelteModuleLoader
          (take 2 ?names) ''/proj/a.ts'' None 0 None))) (?names ! 2) ''/proj/a.ts''"
    using t hit by simp
  then show ?thesis using i hit all by (intro conjI)
qed

section \<open>What survives the invalidation calls\<close>

lemma FileMap_forEach_invariant:
  assumes "\<And>val key s. P s \<Longrightarrow> P (f val key s)" and "P s"
  shows "P (FileMap_forEach cur f es s)"
  using assms(2)
proof (induction es arbitrary: s)
  case Nil
  then show ?case by simp
next
  case (Cons x es)
  obtain key val where x: "x = (key, val)" by (cases x)
  show ?case
    unfolding x FileMap_forEach.simps
    by (rule Cons.IH) (simp add: Cons.prems assms(1))
qed

lemma moduleCache_delete_stable:
  assumes "removal_stable Q" and "Q mc"
  shows "Q (moduleCache_delete e mc path)"
  unfolding moduleCache_delete_def
proof (rule FileMap_forEach_invariant [where P = Q])
  fix val key s assume "Q s"
  with assms(1) show "Q (delete_visit e (getCanonicalFileName e path) val key s)"
    by (simp add: delete_visit_def removal_stable_def split: option.splits)
qed (rule assms(2))

lemma moduleCache_deleteUnresolved_stable:
  assumes "removal_stable Q" and "Q mc"
  shows "Q (moduleCache_deleteUnresolvedResolutionsFromCache e mc path)"
  unfolding moduleCache_deleteUnresolvedResolutionsFromCache_def
proof (rule FileMap_forEach_invariant [where P = Q])
  fix val key s assume "Q s"
  with assms(1) show "Q (deleteUnresolved_visit e (fileNameWithoutEnding e path) val key s)"
    by (simp add: deleteUnresolved_visit_def removal_stable_def split: option.splits)
qed (rule assms(2))

lemma checkLocations_stable:
  assumes "removal_stable Q" and "Q (moduleCache s)"
  shows "Q (moduleCache (checkLocations e rm files locations s))"
  using assms(2)
  by (induction locations) (simp_all add: moduleCache_delete_stable [OF assms(1)])

lemma invalidate_visit_stable:
  assumes "removal_stable Q" and "Q (moduleCache s)"
  shows "Q (moduleCache (invalidate_visit e r s))"
  using assms
  by (simp add: invalidate_visit_def checkLocations_stable split: option.splits)

lemma fold_invalidate_stable:
  assumes "removal_stable Q" and "Q (moduleCache s)"
  shows "Q (moduleCache (fold (invalidate_visit e) rs s))"
  using assms(2)
  by (induction rs arbitrary: s) (simp_all add: invalidate_visit_stable [OF assms(1)])

lemma invalidateFailedLocationResolution_stable:
  assumes "removal_stable Q" and "Q (moduleCache s)"
  shows "Q (moduleCache (invalidateFailedLocationResolution e s))"
  using fold_invalidate_stable [OF assms]
  by (simp add: invalidateFailedLocationResolution_def)

lemma resolveModuleNames_pending:
  "pendingInvalidations (moduleCache (snd (resolveModuleNames e s names c red opt sf))) =
     pendingInvalidations (moduleCache s)"
proof -
  have "pendingInvalidations (moduleCache (snd (mapFrom (resolveOne e c red opt sf) k names s))) =
          pendingInvalidations (moduleCache s)" for k
    by (induction names arbitrary: k s) (simp_all add: split_beta Let_def resolveOne_frame)
  then show ?thesis by (simp add: resolveModuleNames_def)
qed

text \<open>An event that is not \<^verbatim>\<open>clearPendingInvalidations\<close> keeps what is pending.\<close>

lemma apply_event_pending:
  assumes "snd ev \<noteq> ClearPendingInvalidations"
    and "x \<in> pendingInvalidations (moduleCache s)"
  shows "x \<in> pendingInvalidations (moduleCache (apply_event ev s))"
proof -
  obtain e a where ev: "ev = (e, a)" by (cases ev)
  show ?thesis
    using assms
    by (cases a)
       (simp_all add: ev resolveModuleNames_pending deleteFromModuleCache_def
          deleteUnresolvedResolutionsFromCache_def
          moduleCache_delete_stable [OF removal_stable_pending]
          moduleCache_deleteUnresolved_stable [OF removal_stable_pending]
          invalidateFailedLocationResolution_stable [OF removal_stable_pending])
qed

lemma run_pending:
  assumes "list_all (\<lambda>ev. snd ev \<noteq> ClearPendingInvalidations) evs"
    and "x \<in> pendingInvalidations (moduleCache s)"
  shows "x \<in> pendingInvalidations (moduleCache (run evs s))"
  using assms unfolding run_def
  by (induction evs arbitrary: s) (simp_all add: apply_event_pending)

lemma resolveModuleNames_absent:
  assumes "list_all (\<lambda>m. storedKey e m c \<noteq> k) names"
    and "map_of (cache (moduleCache s)) k = None"
  shows "map_of (cache (moduleCache (snd (resolveModuleNames e s names c red opt sf)))) k = None"
proof -
  have "map_of (cache (moduleCache (snd (mapFrom (resolveOne e c red opt sf) i names s)))) k = None"
    for i
    using assms
    by (induction names arbitrary: i s)
       (simp_all add: split_beta Let_def resolveOne_keeps_absent storedKey_def)
  then show ?thesis by (simp add: resolveModuleNames_def)
qed

lemma apply_event_absent:
  assumes "never_queries k ev" and "map_of (cache (moduleCache s)) k = None"
  shows "map_of (cache (moduleCache (apply_event ev s))) k = None"
proof -
  obtain e a where ev: "ev = (e, a)" by (cases ev)
  show ?thesis
    using assms
    by (cases a)
       (simp_all add: ev resolveModuleNames_absent deleteFromModuleCache_def
          deleteUnresolvedResolutionsFromCache_def clearPendingInvalidations_def
          moduleCache_clearPendingInvalidations_def
          moduleCache_delete_stable [OF removal_stable_absent]
          moduleCache_deleteUnresolved_stable [OF removal_stable_absent]
          invalidateFailedLocationResolution_stable [OF removal_stable_absent])
qed

lemma run_absent:
  assumes "list_all (never_queries k) evs" and "map_of (cache (moduleCache s)) k = None"
  shows "map_of (cache (moduleCache (run evs s))) k = None"
  using assms unfolding run_def
  by (induction evs arbitrary: s) (simp_all add: apply_event_absent)

section \<open>Deletion by resolved path, seen from the loader\<close>

lemma map_of_filter_out:
  "distinct (map fst xs) \<Longrightarrow> map_of xs k = Some v \<Longrightarrow> \<not> P (k, v) \<Longrightarrow>
     map_of (filter P xs) k = None"
proof (induction xs)
  case Nil
  then show ?case by simp
next
  case (Cons x xs)
  obtain k' v' where x: "x = (k', v')" by (cases x)
  show ?case
  proof (cases "k' = k")
    case True
    with Cons.prems x have "v' = v" and "k \<notin> fst ` set xs" by auto
    then have "map_of (filter P xs) k = None"
      by (auto simp: map_of_eq_None_iff)
    with Cons.prems True \<open>v' = v\<close> show ?thesis by (simp add: x)
  next
    case False
    with Cons show ?thesis by (simp add: x)
  qed
qed

text \<open>
  C5. The claim says that \<^verbatim>\<open>delete(P)\<close> adds the containing file of every removed
  entry to the pending-invalidation set, so that
  \<^verbatim>\<open>mightHaveInvalidatedResolutions\<close> answers true for it. The callback takes the
  containing file to be the text of the stored key before the first \<^verbatim>\<open>':::'\<close>.
  Here \<^verbatim>\<open>./Foo\<close> resolves to \<^verbatim>\<open>/proj/Foo.ts\<close> from the containing file
  \<^verbatim>\<open>/proj/a:::x/c.ts\<close>. After \<^verbatim>\<open>delete('/proj/Foo.ts')\<close> the pending-invalidation
  set holds \<^verbatim>\<open>/proj/a\<close>, and \<^verbatim>\<open>mightHaveInvalidatedResolutions\<close> answers false for
  the containing file.
\<close>

theorem containing_file_with_separator_not_reported:
  "moduleCache_get (exampleEnv True [] (\<lambda>n. 0) noHost)
     (separatorCache (exampleEnv True [] (\<lambda>n. 0) noHost)) ''./Foo'' ''/proj/a:::x/c.ts'' =
     Some \<lparr>resolvedFileName = ''/proj/Foo.ts'', extension = ''.ts'',
           isExternalLibraryImport = None\<rparr> \<and>
   pendingInvalidations
     (moduleCache
        (deleteFromModuleCache (exampleEnv True [] (\<lambda>n. 0) noHost)
           (createSvelteModuleLoader
              \<lparr>moduleCache := separatorCache (exampleEnv True [] (\<lambda>n. 0) noHost)\<rparr>)
           ''/proj/Foo.ts'')) = {''/proj/a''} \<and>
   \<not> mightHaveInvalidatedResolutions (exampleEnv True [] (\<lambda>n. 0) noHost)
       (deleteFromModuleCache (exampleEnv True [] (\<lambda>n. 0) noHost)
          (createSvelteModuleLoader
             \<lparr>moduleCache := separatorCache (exampleEnv True [] (\<lambda>n. 0) noHost)\<rparr>)
          ''/proj/Foo.ts'')
       ''/proj/a:::x/c.ts''"
  unfolding separatorCache_eq
  by (simp add: cache_eval_defs deleteFromModuleCache_def mightHaveInvalidatedResolutions_def
      oneOfResolvedModuleChanged_def createSvelteModuleLoader_def)

text \<open>
  C5, as the code has it. For every cache entry that holds a record whose resolved path
  equals \<open>path\<close> after case normalisation, \<^verbatim>\<open>delete(path)\<close> removes the entry and
  adds the case-normalised text of the stored key before its first \<^verbatim>\<open>':::'\<close> to the
  pending-invalidation set. From then on \<^verbatim>\<open>mightHaveInvalidatedResolutions\<close> answers
  true for that text, whatever calls follow, as long as none of them is
  \<^verbatim>\<open>clearPendingInvalidations\<close>; right after that call it answers false for every
  path. When the entry was stored for a specifier and a containing file free of the
  separator (no \<^verbatim>\<open>':::'\<close> inside, no colon at the end), that containing file is the
  one reported and \<^verbatim>\<open>has\<close> is false for the pair.
\<close>

theorem delete_marks_containing_file:
  assumes wf: "cache_wf e (moduleCache s)"
    and entry: "(key, Some r) \<in> set (cache (moduleCache s))"
    and path: "getCanonicalFileName e (resolvedFileName r) = getCanonicalFileName e path"
  shows "map_of (cache (moduleCache (deleteFromModuleCache e s path))) key = None \<and>
         getCanonicalFileName e (containingFileOfKey key) \<in>
           pendingInvalidations (moduleCache (deleteFromModuleCache e s path)) \<and>
         (\<forall>evs. list_all (\<lambda>ev. snd ev \<noteq> ClearPendingInvalidations) evs \<longrightarrow>
            mightHaveInvalidatedResolutions e (run evs (deleteFromModuleCache e s path))
              (containingFileOfKey key)) \<and>
         (\<forall>evs p. \<not> mightHaveInvalidatedResolutions e
            (clearPendingInvalidations (run evs (deleteFromModuleCache e s path))) p) \<and>
         (\<forall>moduleName containingFile.
            key = storedKey e moduleName containingFile \<and> separator_free containingFile \<longrightarrow>
            \<not> moduleCache_has e (moduleCache (deleteFromModuleCache e s path))
                moduleName containingFile \<and>
            (\<forall>evs. list_all (\<lambda>ev. snd ev \<noteq> ClearPendingInvalidations) evs \<longrightarrow>
               mightHaveInvalidatedResolutions e (run evs (deleteFromModuleCache e s path))
                 containingFile))"
proof -
  let ?s' = "deleteFromModuleCache e s path"
  have look: "map_of (cache (moduleCache s)) key = Some (Some r)"
    using wf entry by (simp add: cache_wf_def)
  have hit: "resolvesTo e path (Some r)"
    using path by (simp add: resolvesTo_def)
  have c': "cache (moduleCache ?s') =
              filter (\<lambda>(key, val). \<not> resolvesTo e path val) (cache (moduleCache s))"
    and p': "pendingInvalidations (moduleCache ?s') =
               pendingInvalidations (moduleCache s) \<union>
               containingFilesWhere e (\<lambda>key val. resolvesTo e path val) (cache (moduleCache s))"
    by (simp_all add: deleteFromModuleCache_def moduleCache_delete_eq [OF wf])
  have 1: "map_of (cache (moduleCache ?s')) key = None"
    unfolding c'
    by (rule map_of_filter_out [OF _ look]) (use wf hit in \<open>simp_all add: cache_wf_def\<close>)
  have "getCanonicalFileName e (containingFileOfKey key) \<in>
          containingFilesWhere e (\<lambda>key val. resolvesTo e path val) (cache (moduleCache s))"
    using entry hit by (force simp: containingFilesWhere_def)
  then have 2: "getCanonicalFileName e (containingFileOfKey key) \<in>
                  pendingInvalidations (moduleCache ?s')"
    by (simp add: p')
  have might: "mightHaveInvalidatedResolutions e (run evs ?s') cf"
    if "list_all (\<lambda>ev. snd ev \<noteq> ClearPendingInvalidations) evs"
      and "getCanonicalFileName e cf = getCanonicalFileName e (containingFileOfKey key)"
    for evs cf
    using run_pending [OF that(1) 2] that(2)
    by (simp add: mightHaveInvalidatedResolutions_def oneOfResolvedModuleChanged_def
        FileSet_has_def getCanonicalFileName_def)
  have 3: "\<forall>evs. list_all (\<lambda>ev. snd ev \<noteq> ClearPendingInvalidations) evs \<longrightarrow>
             mightHaveInvalidatedResolutions e (run evs ?s') (containingFileOfKey key)"
    using might by blast
  have 4: "\<forall>evs p. \<not> mightHaveInvalidatedResolutions e
             (clearPendingInvalidations (run evs ?s')) p"
    by (simp add: mightHaveInvalidatedResolutions_def oneOfResolvedModuleChanged_def
        FileSet_has_def clearPendingInvalidations_def moduleCache_clearPendingInvalidations_def)
  have 5: "\<not> moduleCache_has e (moduleCache ?s') moduleName containingFile \<and>
           (\<forall>evs. list_all (\<lambda>ev. snd ev \<noteq> ClearPendingInvalidations) evs \<longrightarrow>
              mightHaveInvalidatedResolutions e (run evs ?s') containingFile)"
    if "key = storedKey e moduleName containingFile \<and> separator_free containingFile"
    for moduleName containingFile
  proof -
    from that have k: "key = storedKey e moduleName containingFile"
      and sf: "separator_free containingFile" by simp_all
    have a: "\<not> moduleCache_has e (moduleCache ?s') moduleName containingFile"
      using 1 by (simp add: moduleCache_has_def FileMap_has_def k storedKey_def
          getCanonicalFileName_def)
    have "getCanonicalFileName e containingFile =
            getCanonicalFileName e (containingFileOfKey key)"
      by (simp add: k storedKey_parts(1) [OF sf] getCanonical_idem)
    with might a show ?thesis by blast
  qed
  show ?thesis using 1 2 3 4 5 by blast
qed

theorem delete_marks_containing_file_witness:
  "cache_wf (exampleEnv True [] (\<lambda>n. 0) noHost)
     (moduleCache (exampleLoader (exampleEnv True [] (\<lambda>n. 0) noHost))) \<and>
   (''/proj/b.ts:::./Foo.svelte'',
      Some \<lparr>resolvedFileName = ''/proj/Foo.svelte'', extension = ''.ts'',
            isExternalLibraryImport = None\<rparr>) \<in>
     set (cache (moduleCache (exampleLoader (exampleEnv True [] (\<lambda>n. 0) noHost)))) \<and>
   ''/proj/b.ts:::./Foo.svelte'' =
     storedKey (exampleEnv True [] (\<lambda>n. 0) noHost) ''./Foo.svelte'' ''/proj/b.ts'' \<and>
   separator_free ''/proj/b.ts'' \<and>
   map_of (cache (moduleCache (deleteFromModuleCache (exampleEnv True [] (\<lambda>n. 0) noHost)
      (exampleLoader (exampleEnv True [] (\<lambda>n. 0) noHost)) ''/proj/Foo.svelte'')))
     ''/proj/b.ts:::./Foo.svelte'' = None \<and>
   \<not> moduleCache_has (exampleEnv True [] (\<lambda>n. 0) noHost)
       (moduleCache (deleteFromModuleCache (exampleEnv True [] (\<lambda>n. 0) noHost)
          (exampleLoader (exampleEnv True [] (\<lambda>n. 0) noHost)) ''/proj/Foo.svelte''))
       ''./Foo.svelte'' ''/proj/b.ts'' \<and>
   mightHaveInvalidatedResolutions (exampleEnv True [] (\<lambda>n. 0) noHost)
     (run [(exampleEnv True [] (\<lambda>n. 0) noHost, InvalidateFailedLocationResolution),
           (exampleEnv True [] (\<lambda>n. 0) noHost, DeleteUnresolvedResolutionsFromCache ''/proj/x.ts'')]
        (deleteFromModuleCache (exampleEnv True [] (\<lambda>n. 0) noHost)
           (exampleLoader (exampleEnv True [] (\<lambda>n. 0) noHost)) ''/proj/Foo.svelte''))
     ''/proj/b.ts'' \<and>
   \<not> mightHaveInvalidatedResolutions (exampleEnv True [] (\<lambda>n. 0) noHost)
       (clearPendingInvalidations
          (run [] (deleteFromModuleCache (exampleEnv True [] (\<lambda>n. 0) noHost)
             (exampleLoader (exampleEnv True [] (\<lambda>n. 0) noHost)) ''/proj/Foo.svelte'')))
       ''/proj/b.ts''"
proof -
  let ?e = "exampleEnv True [] (\<lambda>n. 0) noHost"
  let ?r = "\<lparr>resolvedFileName = ''/proj/Foo.svelte'', extension = ''.ts'',
             isExternalLibraryImport = None\<rparr>"
  have wf: "cache_wf ?e (moduleCache (exampleLoader ?e))"
    by (simp add: exampleLoader_def unresolvedCache_wf)
  have entry: "(''/proj/b.ts:::./Foo.svelte'', Some ?r) \<in>
                 set (cache (moduleCache (exampleLoader ?e)))"
    by (simp add: exampleLoader_def unresolvedCache_eq)
  have path: "getCanonicalFileName ?e (resolvedFileName ?r) =
                getCanonicalFileName ?e ''/proj/Foo.svelte''"
    by simp
  have key: "''/proj/b.ts:::./Foo.svelte'' = storedKey ?e ''./Foo.svelte'' ''/proj/b.ts''"
    by (simp add: storedKey_def getCanonicalFileName_def getKey_def exampleEnv_def
        createGetCanonicalFileName_def CACHE_KEY_SEPARATOR_def endsWith_def)
  have sf: "separator_free ''/proj/b.ts''"
    by (simp add: CACHE_KEY_SEPARATOR_def)
  note t = delete_marks_containing_file [OF wf entry path]
  note u = t [THEN conjunct2, THEN conjunct2, THEN conjunct2, THEN conjunct2, rule_format,
              OF conjI [OF key sf]]
  have evs: "list_all (\<lambda>ev. snd ev \<noteq> ClearPendingInvalidations)
               [(?e, InvalidateFailedLocationResolution),
                (?e, DeleteUnresolvedResolutionsFromCache ''/proj/x.ts'')]"
    by simp
  show ?thesis
    using wf entry key sf t [THEN conjunct1] u [THEN conjunct1]
      u [THEN conjunct2, rule_format, OF evs]
      t [THEN conjunct2, THEN conjunct2, THEN conjunct2, THEN conjunct1, rule_format,
         of "[]" "''/proj/b.ts''"]
    by (intro conjI)
qed

section \<open>Virtual paths\<close>

lemma mapFrom_results:
  assumes step: "\<And>m i s. P s \<Longrightarrow> R (fst (f m i s)) \<and> P (snd (f m i s))"
    and "P s"
  shows "list_all R (fst (mapFrom f k xs s)) \<and> P (snd (mapFrom f k xs s))"
  using assms(2)
proof (induction xs arbitrary: k s)
  case Nil
  then show ?case by simp
next
  case (Cons x xs)
  from step [OF Cons.prems] have 1: "R (fst (f x k s))" and 2: "P (snd (f x k s))"
    by simp_all
  from Cons.IH [OF 2] 1 show ?case
    by (simp add: split_beta Let_def)
qed

lemma list_all_update:
  "list_all (\<lambda>(k, v). Q v) xs \<Longrightarrow> Q v \<Longrightarrow> list_all (\<lambda>(k, v). Q v) (AList.update k v xs)"
  by (induction xs) auto

text \<open>
  C2. The claim says that no returned record ever has a virtual path. When the host
  resolves to a virtual path whose real file does not exist,
  \<^verbatim>\<open>getRealSveltePathIfExists\<close> hands the virtual path back, the guard on
  \<^verbatim>\<open>isSvelteFilePath\<close> returns the host's object as it is, and the record that is
  returned and cached carries the virtual path.
\<close>

theorem virtual_path_returned_without_real_file:
  "fst (resolveModuleNames (demoEnv []) createSvelteModuleLoader
          [''./Comp.svelte''] ''/proj/a.ts'' None 0 None) =
     [Some \<lparr>resolvedFileName = ''/proj/Comp.svelte.ts'', extension = ''.ts'',
            isExternalLibraryImport = None\<rparr>] \<and>
   isVirtualSvelteFilePath (demoEnv []) ''/proj/Comp.svelte.ts''"
  by (simp add: demo_defs)

lemma endsWith_disjoint: "endsWith p ''.svelte'' \<Longrightarrow> \<not> endsWith p ''.svelte.ts''"
  by (cases "rev p") (simp_all add: endsWith_def)

text \<open>
  C2, as the code has it. Take a specifier of a batch that is not cached when the batch
  reaches it and that the host resolves to a record. When the path of the record is
  virtual and \<^verbatim>\<open>getRealSveltePathIfExists\<close> yields the path of a Svelte file, the
  result at the position of the specifier is a record with that real path, the
  extension of the real file's snapshot and the \<^verbatim>\<open>isExternalLibraryImport\<close> of the
  host's record. In every other case (the path is not virtual, or the real file does not
  exist) the result is the host's record unchanged. In both cases \<^verbatim>\<open>get\<close> returns the
  same record after the batch. When Svelte file paths are not virtual, every virtual
  path the host resolves to has a real counterpart and the cache holds no virtual path,
  then no record returned by \<^verbatim>\<open>resolveModuleNames\<close> and no record in the cache
  afterwards has a virtual path.
\<close>

theorem real_path_returned_when_real_file_exists:
  "(\<forall>i rm.
      i < length names \<and>
      \<not> moduleCache_has e
          (moduleCache (snd (resolveModuleNames e s (take i names) c red opt sf)))
          (names ! i) c \<and>
      resolvedModule (hostAnswer e (names ! i) c sf i red opt) = Some rm \<longrightarrow>
      moduleCache_get e (moduleCache (snd (resolveModuleNames e s names c red opt sf)))
        (names ! i) c =
        fst (resolveModuleNames e s names c red opt sf) ! i \<and>
      (isVirtualSvelteFilePath e (resolvedFileName rm) \<and>
       isSvelteFilePath e (getRealSveltePathIfExists e (resolvedFileName rm)) \<longrightarrow>
         fst (resolveModuleNames e s names c red opt sf) ! i =
           Some \<lparr>resolvedFileName = getRealSveltePathIfExists e (resolvedFileName rm),
                 extension = snapshotExtension e
                   (getRealSveltePathIfExists e (resolvedFileName rm)),
                 isExternalLibraryImport = isExternalLibraryImport rm\<rparr>) \<and>
      (\<not> (isVirtualSvelteFilePath e (resolvedFileName rm) \<and>
          isSvelteFilePath e (getRealSveltePathIfExists e (resolvedFileName rm))) \<longrightarrow>
         fst (resolveModuleNames e s names c red opt sf) ! i = Some rm)) \<and>
   ((\<forall>p. isSvelteFilePath e p \<longrightarrow> \<not> isVirtualSvelteFilePath e p) \<and>
    (\<forall>m i rm. resolvedModule (hostAnswer e m c sf i red opt) = Some rm \<and>
        isVirtualSvelteFilePath e (resolvedFileName rm) \<longrightarrow>
        isSvelteFilePath e (getRealSveltePathIfExists e (resolvedFileName rm))) \<and>
    list_all (\<lambda>(key, val). nonVirtual e val) (cache (moduleCache s)) \<longrightarrow>
    list_all (nonVirtual e) (fst (resolveModuleNames e s names c red opt sf)) \<and>
    list_all (\<lambda>(key, val). nonVirtual e val)
      (cache (moduleCache (snd (resolveModuleNames e s names c red opt sf)))))"
proof (intro conjI allI impI)
  fix i rm
  assume h: "i < length names \<and>
      \<not> moduleCache_has e
          (moduleCache (snd (resolveModuleNames e s (take i names) c red opt sf)))
          (names ! i) c \<and>
      resolvedModule (hostAnswer e (names ! i) c sf i red opt) = Some rm"
  then have i: "i < length names"
    and miss: "\<not> moduleCache_has e
          (moduleCache (snd (resolveModuleNames e s (take i names) c red opt sf)))
          (names ! i) c"
    and host: "resolvedModule (hostAnswer e (names ! i) c sf i red opt) = Some rm"
    by simp_all
  note f = resolveModuleNames_fresh [OF i miss, unfolded host]
  show "moduleCache_get e (moduleCache (snd (resolveModuleNames e s names c red opt sf)))
          (names ! i) c =
        fst (resolveModuleNames e s names c red opt sf) ! i"
    by (simp add: moduleCache_get_stored f)
  show "fst (resolveModuleNames e s names c red opt sf) ! i =
           Some \<lparr>resolvedFileName = getRealSveltePathIfExists e (resolvedFileName rm),
                 extension = snapshotExtension e
                   (getRealSveltePathIfExists e (resolvedFileName rm)),
                 isExternalLibraryImport = isExternalLibraryImport rm\<rparr>"
    if "isVirtualSvelteFilePath e (resolvedFileName rm) \<and>
        isSvelteFilePath e (getRealSveltePathIfExists e (resolvedFileName rm))"
    using that by (simp add: f(1) remap_def)
  show "fst (resolveModuleNames e s names c red opt sf) ! i = Some rm"
    if "\<not> (isVirtualSvelteFilePath e (resolvedFileName rm) \<and>
           isSvelteFilePath e (getRealSveltePathIfExists e (resolvedFileName rm)))"
    using that by (auto simp: f(1) remap_def)
next
  assume g: "(\<forall>p. isSvelteFilePath e p \<longrightarrow> \<not> isVirtualSvelteFilePath e p) \<and>
    (\<forall>m i rm. resolvedModule (hostAnswer e m c sf i red opt) = Some rm \<and>
        isVirtualSvelteFilePath e (resolvedFileName rm) \<longrightarrow>
        isSvelteFilePath e (getRealSveltePathIfExists e (resolvedFileName rm))) \<and>
    list_all (\<lambda>(key, val). nonVirtual e val) (cache (moduleCache s))"
  then have disjoint: "\<forall>p. isSvelteFilePath e p \<longrightarrow> \<not> isVirtualSvelteFilePath e p"
    and real_exists:
      "\<forall>m i rm. resolvedModule (hostAnswer e m c sf i red opt) = Some rm \<and>
          isVirtualSvelteFilePath e (resolvedFileName rm) \<longrightarrow>
          isSvelteFilePath e (getRealSveltePathIfExists e (resolvedFileName rm))"
    and cached: "list_all (\<lambda>(key, val). nonVirtual e val) (cache (moduleCache s))"
    by blast+
  let ?P = "\<lambda>s. list_all (\<lambda>(key, val). nonVirtual e val) (cache (moduleCache s))"
  have fresh: "nonVirtual e (map_option (remap e) (resolvedModule (hostAnswer e m c sf i red opt)))"
    for m i
  proof (cases "resolvedModule (hostAnswer e m c sf i red opt)")
    case None
    then show ?thesis by (simp add: nonVirtual_def)
  next
    case (Some rm)
    show ?thesis
    proof (cases "isVirtualSvelteFilePath e (resolvedFileName rm)")
      case True
      with real_exists Some
      have sv: "isSvelteFilePath e (getRealSveltePathIfExists e (resolvedFileName rm))"
        by blast
      with disjoint have "\<not> isVirtualSvelteFilePath e
                              (getRealSveltePathIfExists e (resolvedFileName rm))"
        by blast
      with True sv show ?thesis by (simp add: Some nonVirtual_def remap_def)
    next
      case False
      then show ?thesis by (simp add: Some nonVirtual_def remap_def)
    qed
  qed
  have step: "nonVirtual e (fst (resolveOne e c red opt sf m i s)) \<and>
              ?P (snd (resolveOne e c red opt sf m i s))" if P: "?P s" for m i s
  proof (cases "moduleCache_has e (moduleCache s) m c")
    case True
    then obtain val where
      look: "map_of (cache (moduleCache s))
               (createGetCanonicalFileName (sysCaseSensitive e) (getKey e m c)) = Some val"
      by (auto simp: moduleCache_has_def FileMap_has_def)
    then have "(createGetCanonicalFileName (sysCaseSensitive e) (getKey e m c), val) \<in>
                 set (cache (moduleCache s))"
      by (rule map_of_SomeD)
    with P have "nonVirtual e val" by (auto simp: list_all_iff)
    with look P show ?thesis
      by (simp add: resolveOne_hit [OF True] moduleCache_get_def FileMap_get_def)
  next
    case False
    show ?thesis
      using P fresh [of m i]
      by (simp add: resolveOne_miss [OF False] moduleCache_set_def FileMap_set_def
          list_all_update)
  qed
  have 12: "list_all (nonVirtual e) (fst (resolveModuleNames e s names c red opt sf)) \<and>
            ?P (snd (resolveModuleNames e s names c red opt sf))"
    unfolding resolveModuleNames_def
    by (rule mapFrom_results
          [where P = ?P and R = "nonVirtual e" and f = "resolveOne e c red opt sf"])
       (simp_all add: step cached)
  from 12 show "list_all (nonVirtual e) (fst (resolveModuleNames e s names c red opt sf))"
    by simp
  from 12 show "list_all (\<lambda>(key, val). nonVirtual e val)
      (cache (moduleCache (snd (resolveModuleNames e s names c red opt sf))))"
    by simp
qed

theorem real_path_returned_when_real_file_exists_witness:
  "(1::nat) < length [''lib'', ''./Comp.svelte''] \<and>
   \<not> moduleCache_has (demoEnv [''/proj/Comp.svelte''])
       (moduleCache (snd (resolveModuleNames (demoEnv [''/proj/Comp.svelte''])
          createSvelteModuleLoader (take 1 [''lib'', ''./Comp.svelte'']) ''/proj/a.ts''
          None 0 None)))
       ([''lib'', ''./Comp.svelte''] ! 1) ''/proj/a.ts'' \<and>
   resolvedModule (hostAnswer (demoEnv [''/proj/Comp.svelte''])
      ([''lib'', ''./Comp.svelte''] ! 1) ''/proj/a.ts'' None 1 None 0) =
     Some \<lparr>resolvedFileName = ''/proj/Comp.svelte.ts'', extension = ''.ts'',
           isExternalLibraryImport = None\<rparr> \<and>
   isVirtualSvelteFilePath (demoEnv [''/proj/Comp.svelte'']) ''/proj/Comp.svelte.ts'' \<and>
   isSvelteFilePath (demoEnv [''/proj/Comp.svelte''])
     (getRealSveltePathIfExists (demoEnv [''/proj/Comp.svelte'']) ''/proj/Comp.svelte.ts'') \<and>
   fst (resolveModuleNames (demoEnv [''/proj/Comp.svelte'']) createSvelteModuleLoader
          [''lib'', ''./Comp.svelte''] ''/proj/a.ts'' None 0 None) ! 1 =
     Some \<lparr>resolvedFileName = ''/proj/Comp.svelte'', extension = ''.ts'',
           isExternalLibraryImport = None\<rparr> \<and>
   moduleCache_get (demoEnv [''/proj/Comp.svelte''])
     (moduleCache (snd (resolveModuleNames (demoEnv [''/proj/Comp.svelte''])
        createSvelteModuleLoader [''lib'', ''./Comp.svelte''] ''/proj/a.ts'' None 0 None)))
     ''./Comp.svelte'' ''/proj/a.ts'' =
     Some \<lparr>resolvedFileName = ''/proj/Comp.svelte'', extension = ''.ts'',
           isExternalLibraryImport = None\<rparr> \<and>
   \<not> isSvelteFilePath (demoEnv [])
       (getRealSveltePathIfExists (demoEnv []) ''/proj/Comp.svelte.ts'') \<and>
   fst (resolveModuleNames (demoEnv []) createSvelteModuleLoader
          [''lib'', ''./Comp.svelte''] ''/proj/a.ts'' None 0 None) ! 1 =
     Some \<lparr>resolvedFileName = ''/proj/Comp.svelte.ts'', extension = ''.ts'',
           isExternalLibraryImport = None\<rparr> \<and>
   list_all (\<lambda>(key, val). nonVirtual (demoEnv [''/proj/Comp.svelte'']) val)
     (cache (moduleCache createSvelteModuleLoader)) \<and>
   list_all (nonVirtual (demoEnv [''/proj/Comp.svelte'']))
     (fst (resolveModuleNames (demoEnv [''/proj/Comp.svelte'']) createSvelteModuleLoader
        [''lib'', ''./Comp.svelte''] ''/proj/a.ts'' None 0 None))"
proof -
  let ?e = "demoEnv [''/proj/Comp.svelte'']"
  let ?d = "demoEnv []"
  let ?names = "[''lib'', ''./Comp.svelte'']"
  let ?rm = "\<lparr>resolvedFileName = ''/proj/Comp.svelte.ts'', extension = ''.ts'',
             isExternalLibraryImport = None\<rparr>"
  have i: "(1::nat) < length ?names" by simp
  have miss: "\<not> moduleCache_has e'
       (moduleCache (snd (resolveModuleNames e' createSvelteModuleLoader (take 1 ?names)
          ''/proj/a.ts'' None 0 None))) (?names ! 1) ''/proj/a.ts''"
    if "e' = demoEnv fs" for e' fs
    unfolding that by (simp add: demo_defs)
  have host: "resolvedModule (hostAnswer e' (?names ! 1) ''/proj/a.ts'' None 1 None 0) =
                Some ?rm"
    if "e' = demoEnv fs" for e' fs
    unfolding that
    by (simp add: hostAnswer_def demoEnv_def exampleEnv_def demoResolve_def demoObjects_def
        impliedNodeFormatResolver_resolve_def)
  have virt: "isVirtualSvelteFilePath ?e ''/proj/Comp.svelte.ts''"
    by (simp add: demoEnv_def exampleEnv_def endsWith_def)
  have real: "isSvelteFilePath ?e (getRealSveltePathIfExists ?e ''/proj/Comp.svelte.ts'')"
    by (simp add: demoEnv_def exampleEnv_def endsWith_def toRealSvelteFilePath_def)
  have noreal: "\<not> isSvelteFilePath ?d (getRealSveltePathIfExists ?d ''/proj/Comp.svelte.ts'')"
    by (simp add: demoEnv_def exampleEnv_def endsWith_def toRealSvelteFilePath_def)
  note t = real_path_returned_when_real_file_exists
             [of ?names ?e createSvelteModuleLoader "''/proj/a.ts''" None 0 None]
  note u = t [THEN conjunct1, rule_format, of 1 ?rm,
              OF conjI [OF i conjI [OF miss [OF refl] host [OF refl]]]]
  have r1: "fst (resolveModuleNames ?e createSvelteModuleLoader ?names ''/proj/a.ts''
                   None 0 None) ! 1 =
              Some \<lparr>resolvedFileName = ''/proj/Comp.svelte'', extension = ''.ts'',
                    isExternalLibraryImport = None\<rparr>"
    using u [THEN conjunct2, THEN conjunct1] virt real
    by (simp add: demoEnv_def exampleEnv_def endsWith_def toRealSvelteFilePath_def)
  have r2: "moduleCache_get ?e
     (moduleCache (snd (resolveModuleNames ?e createSvelteModuleLoader ?names ''/proj/a.ts''
        None 0 None))) ''./Comp.svelte'' ''/proj/a.ts'' =
     Some \<lparr>resolvedFileName = ''/proj/Comp.svelte'', extension = ''.ts'',
           isExternalLibraryImport = None\<rparr>"
    using u [THEN conjunct1] r1 by simp
  note t' = real_path_returned_when_real_file_exists
             [of ?names ?d createSvelteModuleLoader "''/proj/a.ts''" None 0 None]
  note u' = t' [THEN conjunct1, rule_format, of 1 ?rm,
              OF conjI [OF i conjI [OF miss [OF refl] host [OF refl]]]]
  have r3: "fst (resolveModuleNames ?d createSvelteModuleLoader ?names ''/proj/a.ts''
                   None 0 None) ! 1 = Some ?rm"
    using u' [THEN conjunct2, THEN conjunct2] noreal by simp
  have disjoint: "\<forall>p. isSvelteFilePath ?e p \<longrightarrow> \<not> isVirtualSvelteFilePath ?e p"
    by (simp add: demoEnv_def exampleEnv_def endsWith_disjoint)
  have real_exists: "\<forall>m i rm. resolvedModule (hostAnswer ?e m ''/proj/a.ts'' None i None 0) =
          Some rm \<and> isVirtualSvelteFilePath ?e (resolvedFileName rm) \<longrightarrow>
          isSvelteFilePath ?e (getRealSveltePathIfExists ?e (resolvedFileName rm))"
    by (auto simp: hostAnswer_def demoEnv_def exampleEnv_def demoObjects_def endsWith_def
        toRealSvelteFilePath_def split: if_splits)
  have cached: "list_all (\<lambda>(key, val). nonVirtual ?e val)
                  (cache (moduleCache createSvelteModuleLoader))"
    by (simp add: createSvelteModuleLoader_def newModuleResolutionCache_def)
  note g = t [THEN conjunct2, rule_format, OF conjI [OF disjoint conjI [OF real_exists cached]]]
  show ?thesis
    using i miss [OF refl, of "[''/proj/Comp.svelte'']"]
      host [OF refl, of "[''/proj/Comp.svelte'']"] virt real r1 r2 noreal r3 cached
      g [THEN conjunct1]
    by (intro conjI)
qed

section \<open>Unresolved outcomes\<close>

text \<open>
  C7. When the batch reaches a specifier that is not cached and the host reports it as
  unresolved, the result at its position is \<^verbatim>\<open>undefined\<close> and, after the batch,
  \<^verbatim>\<open>has\<close> is true and \<^verbatim>\<open>get\<close> returns \<^verbatim>\<open>undefined\<close> for it. For a key that no
  call has ever resolved, \<^verbatim>\<open>has\<close> is false, whatever else happened to the loader
  since it was created.
\<close>

theorem unresolved_outcome_is_cached:
  assumes miss: "\<not> moduleCache_has e
                     (moduleCache (snd (resolveModuleNames e s pre c red opt sf))) m c"
    and unresolved: "resolvedModule (hostAnswer e m c sf (length pre) red opt) = None"
  shows "fst (resolveModuleNames e s (pre @ m # post) c red opt sf) ! length pre = None \<and>
         moduleCache_has e
           (moduleCache (snd (resolveModuleNames e s (pre @ m # post) c red opt sf))) m c \<and>
         moduleCache_get e
           (moduleCache (snd (resolveModuleNames e s (pre @ m # post) c red opt sf))) m c = None \<and>
         (\<forall>evs m' c'. list_all (never_queries (storedKey e m' c')) evs \<longrightarrow>
            \<not> moduleCache_has e (moduleCache (run evs createSvelteModuleLoader)) m' c')"
proof -
  let ?f = "resolveOne e c red opt sf"
  let ?s1 = "snd (mapFrom ?f 0 pre s)"
  let ?s2 = "snd (?f m (length pre) ?s1)"
  let ?k = "createGetCanonicalFileName (sysCaseSensitive e) (getKey e m c)"
  have miss': "\<not> moduleCache_has e (moduleCache ?s1) m c"
    using miss by (simp add: resolveModuleNames_def)
  have r: "fst (?f m (length pre) ?s1) = None"
    using unresolved by (simp add: resolveOne_miss(1) [OF miss'])
  have "map_of (cache (moduleCache ?s2)) ?k = Some None"
    using unresolved
    by (simp add: resolveOne_miss(2) [OF miss'] moduleCache_set_def FileMap_set_def update_conv')
  then have fin: "map_of (cache (moduleCache (snd (mapFrom ?f (Suc (length pre)) post ?s2)))) ?k =
                    Some None"
    by (rule mapFrom_invariant [rotated]) (rule resolveOne_keeps_entry)
  have res: "fst (resolveModuleNames e s (pre @ m # post) c red opt sf) ! length pre = None"
    using r
    by (simp add: resolveModuleNames_def mapFrom_append split_beta Let_def nth_append
        mapFrom_length)
  have st: "snd (resolveModuleNames e s (pre @ m # post) c red opt sf) =
              snd (mapFrom ?f (Suc (length pre)) post ?s2)"
    by (simp add: resolveModuleNames_def mapFrom_append split_beta Let_def)
  have "map_of (cache (moduleCache createSvelteModuleLoader)) k = None" for k
    by (simp add: createSvelteModuleLoader_def newModuleResolutionCache_def)
  then have new: "\<forall>evs m' c'. list_all (never_queries (storedKey e m' c')) evs \<longrightarrow>
            \<not> moduleCache_has e (moduleCache (run evs createSvelteModuleLoader)) m' c'"
    by (simp add: moduleCache_has_def FileMap_has_def run_absent storedKey_def
        getCanonicalFileName_def)
  show ?thesis
    using res fin new
    by (simp add: st moduleCache_has_def moduleCache_get_def FileMap_has_def FileMap_get_def)
qed

theorem unresolved_outcome_is_cached_witness:
  "\<not> moduleCache_has (demoEnv [])
       (moduleCache (snd (resolveModuleNames (demoEnv []) createSvelteModuleLoader [''lib'']
          ''/proj/a.ts'' None 0 None))) ''./Widget'' ''/proj/a.ts'' \<and>
   resolvedModule (hostAnswer (demoEnv []) ''./Widget'' ''/proj/a.ts'' None (length [''lib''])
      None 0) = None \<and>
   fst (resolveModuleNames (demoEnv []) createSvelteModuleLoader
          ([''lib''] @ ''./Widget'' # [''lib'']) ''/proj/a.ts'' None 0 None) ! length [''lib''] =
     None \<and>
   moduleCache_has (demoEnv [])
     (moduleCache (snd (resolveModuleNames (demoEnv []) createSvelteModuleLoader
        ([''lib''] @ ''./Widget'' # [''lib'']) ''/proj/a.ts'' None 0 None)))
     ''./Widget'' ''/proj/a.ts'' \<and>
   list_all (never_queries (storedKey (demoEnv []) ''./Widget'' ''/proj/a.ts''))
     [(demoEnv [], ResolveModuleNames [''lib''] ''/proj/a.ts'' None 0 None)] \<and>
   \<not> moduleCache_has (demoEnv [])
       (moduleCache (run [(demoEnv [], ResolveModuleNames [''lib''] ''/proj/a.ts'' None 0 None)]
          createSvelteModuleLoader))
       ''./Widget'' ''/proj/a.ts''"
proof -
  have miss: "\<not> moduleCache_has (demoEnv [])
       (moduleCache (snd (resolveModuleNames (demoEnv []) createSvelteModuleLoader [''lib'']
          ''/proj/a.ts'' None 0 None))) ''./Widget'' ''/proj/a.ts''"
    by (simp add: demo_defs)
  have unresolved: "resolvedModule (hostAnswer (demoEnv []) ''./Widget'' ''/proj/a.ts'' None
      (length [''lib'']) None 0) = None"
    by (simp add: hostAnswer_def demo_defs)
  have nq: "list_all (never_queries (storedKey (demoEnv []) ''./Widget'' ''/proj/a.ts''))
     [(demoEnv [], ResolveModuleNames [''lib''] ''/proj/a.ts'' None 0 None)]"
    by (simp add: storedKey_def getCanonicalFileName_def demo_defs)
  note t = unresolved_outcome_is_cached [OF miss unresolved, of "[''lib'']"]
  show ?thesis
    using miss unresolved nq t [THEN conjunct1] t [THEN conjunct2, THEN conjunct1]
      t [THEN conjunct2, THEN conjunct2, THEN conjunct2, rule_format, OF nq]
    by (intro conjI)
qed

section \<open>Failed lookups\<close>

lemma cachedUnresolved_cong:
  "sysCaseSensitive e' = sysCaseSensitive e \<Longrightarrow> cachedUnresolved e' k mc = cachedUnresolved e k mc"
  by (simp add: cachedUnresolved_def cache_wf_def getCanonicalFileName_def)

lemma moduleCache_delete_keeps:
  assumes "cachedUnresolved e k mc"
  shows "cachedUnresolved e k (moduleCache_delete e mc p)"
proof -
  from assms have wf: "cache_wf e mc" and look: "map_of (cache mc) k = Some None"
    by (simp_all add: cachedUnresolved_def)
  from wf have d: "distinct (map fst (cache mc))" by (simp add: cache_wf_def)
  have "map_of (cache (moduleCache_delete e mc p)) k = Some None"
    by (simp add: moduleCache_delete_eq [OF wf] lookup_after_filter [OF d] look
        resolvesTo_def)
  with cache_wf_delete [OF wf] show ?thesis by (simp add: cachedUnresolved_def)
qed

lemma moduleCache_deleteUnresolved_keeps:
  assumes "cachedUnresolved e k mc"
    and "\<not> str_includes (moduleNameOfKey k) (fileNameWithoutEnding e p)"
  shows "cachedUnresolved e k (moduleCache_deleteUnresolvedResolutionsFromCache e mc p)"
proof -
  from assms have wf: "cache_wf e mc" and look: "map_of (cache mc) k = Some None"
    by (simp_all add: cachedUnresolved_def)
  from wf have d: "distinct (map fst (cache mc))" by (simp add: cache_wf_def)
  have "map_of (cache (moduleCache_deleteUnresolvedResolutionsFromCache e mc p)) k = Some None"
    using assms(2)
    by (simp add: moduleCache_deleteUnresolved_eq [OF wf] lookup_after_filter [OF d] look
        unresolvedMatching_def)
  with cache_wf_deleteUnresolved [OF wf] show ?thesis by (simp add: cachedUnresolved_def)
qed

lemma checkLocations_keeps:
  assumes "cachedUnresolved e k (moduleCache s)"
  shows "cachedUnresolved e k (moduleCache (checkLocations e rm files locations s))"
  using assms by (induction locations) (simp_all add: moduleCache_delete_keeps)

lemma invalidate_visit_keeps:
  assumes "cachedUnresolved e k (moduleCache s)"
  shows "cachedUnresolved e k (moduleCache (invalidate_visit e r s))"
  using assms by (simp add: invalidate_visit_def checkLocations_keeps split: option.splits)

lemma invalidateFailedLocationResolution_keeps:
  assumes "cachedUnresolved e k (moduleCache s)"
  shows "cachedUnresolved e k (moduleCache (invalidateFailedLocationResolution e s))"
proof -
  have "cachedUnresolved e k (moduleCache (fold (invalidate_visit e) rs s))" for rs
    using assms by (induction rs arbitrary: s) (simp_all add: invalidate_visit_keeps)
  then show ?thesis by (simp add: invalidateFailedLocationResolution_def)
qed

lemma resolveOne_keeps_unresolved:
  assumes "cachedUnresolved e k (moduleCache s)"
  shows "cachedUnresolved e k (moduleCache (snd (resolveOne e c red opt sf m i s)))"
proof -
  from assms have wf: "cache_wf e (moduleCache s)"
    and look: "map_of (cache (moduleCache s)) k = Some None"
    by (simp_all add: cachedUnresolved_def)
  have "cache_wf e (moduleCache (snd (resolveOne e c red opt sf m i s)))"
  proof (cases "moduleCache_has e (moduleCache s) m c")
    case True
    then show ?thesis using wf by (simp add: resolveOne_hit)
  next
    case False
    then show ?thesis using wf by (simp add: resolveOne_miss(2) cache_wf_set)
  qed
  with resolveOne_keeps_entry [OF look] show ?thesis by (simp add: cachedUnresolved_def)
qed

lemma resolveModuleNames_keeps_unresolved:
  assumes "cachedUnresolved e k (moduleCache s)"
  shows "cachedUnresolved e k
           (moduleCache (snd (mapFrom (resolveOne e c red opt sf) j names s)))"
  by (rule mapFrom_invariant [where P = "\<lambda>s. cachedUnresolved e k (moduleCache s)"])
     (simp_all add: resolveOne_keeps_unresolved assms)

lemma apply_event_keeps:
  assumes "keeps_unresolved e k ev" and "cachedUnresolved e k (moduleCache s)"
  shows "cachedUnresolved e k (moduleCache (apply_event ev s))"
proof -
  obtain e' a where ev: "ev = (e', a)" by (cases ev)
  from assms(1) have cs: "sysCaseSensitive e' = sysCaseSensitive e"
    by (cases a) (simp_all add: ev)
  note cong = cachedUnresolved_cong [OF cs]
  from assms(2) have Q: "cachedUnresolved e' k (moduleCache s)" by (simp add: cong)
  have "cachedUnresolved e' k (moduleCache (apply_event ev s))"
  proof (cases a)
    case (ResolveModuleNames names c red opt sf)
    then show ?thesis
      using resolveModuleNames_keeps_unresolved [OF Q]
      by (simp add: ev resolveModuleNames_def)
  next
    case (DeleteFromModuleCache p)
    then show ?thesis
      using moduleCache_delete_keeps [OF Q] by (simp add: ev deleteFromModuleCache_def)
  next
    case (DeleteUnresolvedResolutionsFromCache p)
    with assms(1) have "\<not> str_includes (moduleNameOfKey k) (fileNameWithoutEnding e' p)"
      by (simp add: ev)
    from moduleCache_deleteUnresolved_keeps [OF Q this] show ?thesis
      by (simp add: ev DeleteUnresolvedResolutionsFromCache
          deleteUnresolvedResolutionsFromCache_def)
  next
    case InvalidateFailedLocationResolution
    then show ?thesis
      using invalidateFailedLocationResolution_keeps [OF Q] by (simp add: ev)
  next
    case ClearPendingInvalidations
    then show ?thesis
      using Q
      by (simp add: ev clearPendingInvalidations_def moduleCache_clearPendingInvalidations_def
          cachedUnresolved_def cache_wf_def)
  qed
  then show ?thesis by (simp add: cong)
qed

lemma run_keeps:
  assumes "list_all (keeps_unresolved e k) evs" and "cachedUnresolved e k (moduleCache s)"
  shows "cachedUnresolved e k (moduleCache (run evs s))"
  using assms unfolding run_def
  by (induction evs arbitrary: s) (simp_all add: apply_event_keeps)

text \<open>
  C1. The claim says that every resolution that fails while probing a location is evicted
  once that location is marked pending and the sweep has run. The sweep skips tracked
  objects without a resolved module, and \<^verbatim>\<open>deleteUnresolvedResolutionsFromCache\<close> only
  removes an unresolved entry whose specifier contains the stem of the path. Here
  \<^verbatim>\<open>./Widget\<close> fails after probing \<^verbatim>\<open>/proj/Widget/index.ts\<close>; that path is marked
  pending and the sweep runs, and the entry is still cached and the containing file is
  not reported.
\<close>

theorem failed_lookup_not_invalidated:
  "resolvedModule (hostAnswer (demoEnv []) ''./Widget'' ''/proj/a.ts'' None 0 None 0) = None \<and>
   failedLookupLocations (hostAnswer (demoEnv []) ''./Widget'' ''/proj/a.ts'' None 0 None 0) =
     Some [''/proj/Widget.ts'', ''/proj/Widget/index.ts''] \<and>
   moduleCache_has (demoEnv [])
     (moduleCache
        (invalidateFailedLocationResolution (demoEnv [])
           (deleteUnresolvedResolutionsFromCache (demoEnv [])
              (snd (resolveModuleNames (demoEnv []) createSvelteModuleLoader [''./Widget'']
                      ''/proj/a.ts'' None 0 None))
              ''/proj/Widget/index.ts'')))
     ''./Widget'' ''/proj/a.ts'' \<and>
   \<not> mightHaveInvalidatedResolutions (demoEnv [])
       (invalidateFailedLocationResolution (demoEnv [])
          (deleteUnresolvedResolutionsFromCache (demoEnv [])
             (snd (resolveModuleNames (demoEnv []) createSvelteModuleLoader [''./Widget'']
                     ''/proj/a.ts'' None 0 None))
             ''/proj/Widget/index.ts''))
       ''/proj/a.ts''"
  by (simp add: hostAnswer_def demo_defs invalidateFailedLocationResolution_def
      invalidate_visit_def deleteUnresolvedResolutionsFromCache_def
      moduleCache_deleteUnresolvedResolutionsFromCache_def deleteUnresolved_visit_def
      fileNameWithoutEnding_def getCanonicalFileName_def getLastPartOfPath_def js_split_def
      pop_or_empty_def shift_or_empty_def second_or_empty_def moduleNameOfKey_def
      containingFileOfKey_def str_includes_def sublist_code FileSet_add_def FileSet_has_def
      mightHaveInvalidatedResolutions_def oneOfResolvedModuleChanged_def)

text \<open>
  C1, as the code has it. Take a specifier at any position of a batch, on a loader with
  a well-formed cache, that is not cached when the batch reaches it and that the host
  fails to resolve; let any calls follow on the same host, except a
  \<^verbatim>\<open>deleteUnresolvedResolutionsFromCache\<close> whose stem occurs in the specifier part of
  the stored key. Then the pair is still cached as unresolved. When a path \<open>L\<close> is now
  marked pending through \<^verbatim>\<open>deleteUnresolvedResolutionsFromCache\<close> and the sweep runs:
  if the stem of \<open>L\<close> occurs in the specifier part of the stored key, the entry is
  evicted and, for a containing file free of the separator,
  \<^verbatim>\<open>mightHaveInvalidatedResolutions\<close> answers true for the containing file until
  \<^verbatim>\<open>clearPendingInvalidations\<close> is called; if the stem does not occur there, the
  pair stays cached as unresolved, whether or not \<open>L\<close> is one of the locations that
  were probed. For a containing file free of the separator and a normalised specifier
  without \<^verbatim>\<open>':::'\<close>, the specifier part of the stored key is the case-normalised
  normalised specifier.
\<close>

theorem failed_resolution_evicted_when_stem_matches:
  assumes wf: "cache_wf e (moduleCache s)"
    and i: "i < length names"
    and miss: "\<not> moduleCache_has e
                   (moduleCache (snd (resolveModuleNames e s (take i names) c red opt sf)))
                   (names ! i) c"
    and failed: "resolvedModule (hostAnswer e (names ! i) c sf i red opt) = None"
    and later: "list_all (keeps_unresolved e (storedKey e (names ! i) c)) evs"
  shows "moduleCache_has e
           (moduleCache (run evs (snd (resolveModuleNames e s names c red opt sf))))
           (names ! i) c \<and>
         moduleCache_get e
           (moduleCache (run evs (snd (resolveModuleNames e s names c red opt sf))))
           (names ! i) c = None \<and>
         (str_includes (moduleNameOfKey (storedKey e (names ! i) c))
            (fileNameWithoutEnding e L) \<longrightarrow>
            \<not> moduleCache_has e
                (moduleCache
                   (invalidateFailedLocationResolution e
                      (deleteUnresolvedResolutionsFromCache e
                         (run evs (snd (resolveModuleNames e s names c red opt sf))) L)))
                (names ! i) c \<and>
            (separator_free c \<longrightarrow>
               (\<forall>evs'. list_all (\<lambda>ev. snd ev \<noteq> ClearPendingInvalidations) evs' \<longrightarrow>
                  mightHaveInvalidatedResolutions e
                    (run evs'
                       (invalidateFailedLocationResolution e
                          (deleteUnresolvedResolutionsFromCache e
                             (run evs (snd (resolveModuleNames e s names c red opt sf))) L)))
                    c))) \<and>
         (\<not> str_includes (moduleNameOfKey (storedKey e (names ! i) c))
              (fileNameWithoutEnding e L) \<longrightarrow>
            moduleCache_has e
              (moduleCache
                 (invalidateFailedLocationResolution e
                    (deleteUnresolvedResolutionsFromCache e
                       (run evs (snd (resolveModuleNames e s names c red opt sf))) L)))
              (names ! i) c \<and>
            moduleCache_get e
              (moduleCache
                 (invalidateFailedLocationResolution e
                    (deleteUnresolvedResolutionsFromCache e
                       (run evs (snd (resolveModuleNames e s names c red opt sf))) L)))
              (names ! i) c = None) \<and>
         (separator_free c \<and>
          \<not> sublist CACHE_KEY_SEPARATOR (ensureRealSvelteFilePath e (names ! i)) \<longrightarrow>
            moduleNameOfKey (storedKey e (names ! i) c) =
              getCanonicalFileName e (ensureRealSvelteFilePath e (names ! i)))"
proof -
  let ?m = "names ! i"
  let ?k = "storedKey e ?m c"
  let ?s0 = "snd (resolveModuleNames e s names c red opt sf)"
  let ?s1 = "run evs ?s0"
  let ?s2 = "deleteUnresolvedResolutionsFromCache e ?s1 L"
  let ?s3 = "invalidateFailedLocationResolution e ?s2"
  let ?stem = "fileNameWithoutEnding e L"
  have "map_of (cache (moduleCache ?s0)) ?k = Some None"
    using resolveModuleNames_fresh(2) [OF i miss] failed by simp
  with resolveModuleNames_cache_wf [OF wf]
  have "cachedUnresolved e ?k (moduleCache ?s0)"
    by (simp add: cachedUnresolved_def)
  from run_keeps [OF later this] have Q1: "cachedUnresolved e ?k (moduleCache ?s1)" .
  then have wf1: "cache_wf e (moduleCache ?s1)"
    and look1: "map_of (cache (moduleCache ?s1)) ?k = Some None"
    by (simp_all add: cachedUnresolved_def)
  have 1: "moduleCache_has e (moduleCache ?s1) ?m c"
    and 2: "moduleCache_get e (moduleCache ?s1) ?m c = None"
    by (simp_all add: moduleCache_has_stored moduleCache_get_stored look1)
  have 3: "\<not> moduleCache_has e (moduleCache ?s3) ?m c \<and>
           (separator_free c \<longrightarrow>
              (\<forall>evs'. list_all (\<lambda>ev. snd ev \<noteq> ClearPendingInvalidations) evs' \<longrightarrow>
                 mightHaveInvalidatedResolutions e (run evs' ?s3) c))"
    if stem: "str_includes (moduleNameOfKey ?k) ?stem"
  proof -
    have hit: "unresolvedMatching ?stem ?k None"
      using stem by (simp add: unresolvedMatching_def)
    have c2: "cache (moduleCache ?s2) =
                filter (\<lambda>(key, val). \<not> unresolvedMatching ?stem key val)
                  (cache (moduleCache ?s1))"
      and p2: "pendingInvalidations (moduleCache ?s2) =
                 pendingInvalidations (moduleCache ?s1) \<union>
                 containingFilesWhere e (unresolvedMatching ?stem) (cache (moduleCache ?s1))"
      by (simp_all add: deleteUnresolvedResolutionsFromCache_def
          moduleCache_deleteUnresolved_eq [OF wf1])
    have absent2: "map_of (cache (moduleCache ?s2)) ?k = None"
      unfolding c2
      by (rule map_of_filter_out [OF _ look1]) (use wf1 hit in \<open>simp_all add: cache_wf_def\<close>)
    have absent3: "map_of (cache (moduleCache ?s3)) ?k = None"
      by (rule invalidateFailedLocationResolution_stable [OF removal_stable_absent absent2])
    have a: "\<not> moduleCache_has e (moduleCache ?s3) ?m c"
      using absent3 by (simp add: moduleCache_has_stored)
    have b: "mightHaveInvalidatedResolutions e (run evs' ?s3) c"
      if sf: "separator_free c"
        and nc: "list_all (\<lambda>ev. snd ev \<noteq> ClearPendingInvalidations) evs'" for evs'
    proof -
      have "(?k, None) \<in> set (cache (moduleCache ?s1))"
        using look1 by (rule map_of_SomeD)
      then have "getCanonicalFileName e (containingFileOfKey ?k) \<in>
                   containingFilesWhere e (unresolvedMatching ?stem) (cache (moduleCache ?s1))"
        using hit by (force simp: containingFilesWhere_def)
      moreover have "getCanonicalFileName e (containingFileOfKey ?k) =
                       getCanonicalFileName e c"
        by (simp add: storedKey_def containingFileOfKey_getKey [OF sf] getCanonical_idem)
      ultimately have "getCanonicalFileName e c \<in> pendingInvalidations (moduleCache ?s2)"
        by (simp add: p2)
      then have "getCanonicalFileName e c \<in> pendingInvalidations (moduleCache ?s3)"
        by (rule invalidateFailedLocationResolution_stable [OF removal_stable_pending])
      from run_pending [OF nc this] show ?thesis
        by (simp add: mightHaveInvalidatedResolutions_def oneOfResolvedModuleChanged_def
            FileSet_has_def getCanonicalFileName_def)
    qed
    from a b show ?thesis by blast
  qed
  have 4: "moduleCache_has e (moduleCache ?s3) ?m c \<and>
           moduleCache_get e (moduleCache ?s3) ?m c = None"
    if nostem: "\<not> str_includes (moduleNameOfKey ?k) ?stem"
  proof -
    have "cachedUnresolved e ?k (moduleCache ?s2)"
      using moduleCache_deleteUnresolved_keeps [OF Q1 nostem]
      by (simp add: deleteUnresolvedResolutionsFromCache_def)
    then have "cachedUnresolved e ?k (moduleCache ?s3)"
      by (rule invalidateFailedLocationResolution_keeps)
    then show ?thesis
      by (simp add: cachedUnresolved_def moduleCache_has_stored moduleCache_get_stored)
  qed
  have 5: "moduleNameOfKey ?k = getCanonicalFileName e (ensureRealSvelteFilePath e ?m)"
    if "separator_free c \<and> \<not> sublist CACHE_KEY_SEPARATOR (ensureRealSvelteFilePath e ?m)"
    using that storedKey_parts [of c e ?m] by simp
  show ?thesis using 1 2 3 4 5 by (intro conjI impI) blast+
qed

theorem failed_resolution_evicted_when_stem_matches_witness:
  "cache_wf (demoEnv []) (moduleCache createSvelteModuleLoader) \<and>
   (1::nat) < length [''lib'', ''./Widget''] \<and>
   \<not> moduleCache_has (demoEnv [])
       (moduleCache (snd (resolveModuleNames (demoEnv []) createSvelteModuleLoader
          (take 1 [''lib'', ''./Widget'']) ''/proj/a.ts'' None 0 None)))
       ([''lib'', ''./Widget''] ! 1) ''/proj/a.ts'' \<and>
   resolvedModule (hostAnswer (demoEnv []) ([''lib'', ''./Widget''] ! 1) ''/proj/a.ts''
      None 1 None 0) = None \<and>
   list_all (keeps_unresolved (demoEnv [])
      (storedKey (demoEnv []) ([''lib'', ''./Widget''] ! 1) ''/proj/a.ts'')) laterCalls \<and>
   separator_free ''/proj/a.ts'' \<and>
   str_includes
     (moduleNameOfKey (storedKey (demoEnv []) ([''lib'', ''./Widget''] ! 1) ''/proj/a.ts''))
     (fileNameWithoutEnding (demoEnv []) ''/proj/Widget.ts'') \<and>
   \<not> str_includes
     (moduleNameOfKey (storedKey (demoEnv []) ([''lib'', ''./Widget''] ! 1) ''/proj/a.ts''))
     (fileNameWithoutEnding (demoEnv []) ''/proj/Widget/index.ts'') \<and>
   moduleCache_has (demoEnv [])
     (moduleCache (run laterCalls
        (snd (resolveModuleNames (demoEnv []) createSvelteModuleLoader
           [''lib'', ''./Widget''] ''/proj/a.ts'' None 0 None))))
     ([''lib'', ''./Widget''] ! 1) ''/proj/a.ts'' \<and>
   \<not> moduleCache_has (demoEnv [])
       (moduleCache
          (invalidateFailedLocationResolution (demoEnv [])
             (deleteUnresolvedResolutionsFromCache (demoEnv [])
                (run laterCalls
                   (snd (resolveModuleNames (demoEnv []) createSvelteModuleLoader
                      [''lib'', ''./Widget''] ''/proj/a.ts'' None 0 None)))
                ''/proj/Widget.ts'')))
       ([''lib'', ''./Widget''] ! 1) ''/proj/a.ts'' \<and>
   mightHaveInvalidatedResolutions (demoEnv [])
     (run []
        (invalidateFailedLocationResolution (demoEnv [])
           (deleteUnresolvedResolutionsFromCache (demoEnv [])
              (run laterCalls
                 (snd (resolveModuleNames (demoEnv []) createSvelteModuleLoader
                    [''lib'', ''./Widget''] ''/proj/a.ts'' None 0 None)))
              ''/proj/Widget.ts'')))
     ''/proj/a.ts'' \<and>
   moduleCache_has (demoEnv [])
     (moduleCache
        (invalidateFailedLocationResolution (demoEnv [])
           (deleteUnresolvedResolutionsFromCache (demoEnv [])
              (run laterCalls
                 (snd (resolveModuleNames (demoEnv []) createSvelteModuleLoader
                    [''lib'', ''./Widget''] ''/proj/a.ts'' None 0 None)))
              ''/proj/Widget/index.ts'')))
     ([''lib'', ''./Widget''] ! 1) ''/proj/a.ts''"
proof -
  let ?e = "demoEnv []"
  let ?names = "[''lib'', ''./Widget'']"
  have wf: "cache_wf ?e (moduleCache createSvelteModuleLoader)"
    by (simp add: createSvelteModuleLoader_def cache_wf_new)
  have i: "(1::nat) < length ?names" by simp
  have miss: "\<not> moduleCache_has ?e
       (moduleCache (snd (resolveModuleNames ?e createSvelteModuleLoader (take 1 ?names)
          ''/proj/a.ts'' None 0 None))) (?names ! 1) ''/proj/a.ts''"
    by (simp add: demo_defs)
  have failed: "resolvedModule (hostAnswer ?e (?names ! 1) ''/proj/a.ts'' None 1 None 0) = None"
    by (simp add: hostAnswer_def demo_defs)
  have key: "storedKey ?e (?names ! 1) ''/proj/a.ts'' = ''/proj/a.ts:::./Widget''"
    by (simp add: storedKey_def getCanonicalFileName_def demo_defs)
  have name: "moduleNameOfKey ''/proj/a.ts:::./Widget'' = ''./Widget''"
    by (simp add: moduleNameOfKey_def js_split_def second_or_empty_def CACHE_KEY_SEPARATOR_def)
  have stems: "fileNameWithoutEnding ?e ''/proj/other.css'' = ''other''"
    "fileNameWithoutEnding ?e ''/proj/Widget.ts'' = ''Widget''"
    "fileNameWithoutEnding ?e ''/proj/Widget/index.ts'' = ''index''"
    by (simp_all add: fileNameWithoutEnding_def demoEnv_def exampleEnv_def
        getCanonicalFileName_def createGetCanonicalFileName_def getLastPartOfPath_def
        js_split_def pop_or_empty_def shift_or_empty_def)
  have later: "list_all (keeps_unresolved ?e (storedKey ?e (?names ! 1) ''/proj/a.ts''))
                 laterCalls"
    unfolding key laterCalls_def
    by (simp add: name stems str_includes_def sublist_code)
  have sf: "separator_free ''/proj/a.ts''"
    by (simp add: CACHE_KEY_SEPARATOR_def)
  have stem: "str_includes (moduleNameOfKey (storedKey ?e (?names ! 1) ''/proj/a.ts''))
                (fileNameWithoutEnding ?e ''/proj/Widget.ts'')"
    unfolding key by (simp add: name stems str_includes_def sublist_code)
  have nostem: "\<not> str_includes (moduleNameOfKey (storedKey ?e (?names ! 1) ''/proj/a.ts''))
                (fileNameWithoutEnding ?e ''/proj/Widget/index.ts'')"
    unfolding key by (simp add: name stems str_includes_def sublist_code)
  note t = failed_resolution_evicted_when_stem_matches [OF wf i miss failed later]
  note a = t [of "''/proj/Widget.ts''", THEN conjunct2, THEN conjunct2, THEN conjunct1,
              rule_format, OF stem]
  note b = t [of "''/proj/Widget/index.ts''", THEN conjunct2, THEN conjunct2, THEN conjunct2,
              THEN conjunct1, rule_format, OF nostem]
  have nc: "list_all (\<lambda>ev. snd ev \<noteq> ClearPendingInvalidations) []" by simp
  show ?thesis
    using wf i miss failed later sf stem nostem t [of "[]", THEN conjunct1]
      a [THEN conjunct1] a [THEN conjunct2, rule_format, OF sf nc] b [THEN conjunct1]
    by (intro conjI)
qed

section \<open>The sweep of failed lookup locations\<close>

lemma checkLocations_eq:
  "checkLocations e rm files locations s =
     (if list_ex (FileSet_has (hostCaseSensitive e) (pendingFailedLocationCheck s)) locations
      then s\<lparr>moduleCache := moduleCache_delete e (moduleCache s) (resolvedFileName rm),
             failedLocationInvalidated :=
               failedLocationInvalidated s \<union>
                 createGetCanonicalFileName (hostCaseSensitive e) ` files\<rparr>
      else s)"
  by (induction locations) simp_all

lemma invalidate_visit_eq:
  assumes "filesField s r \<noteq> None"
  shows "invalidate_visit e r s =
     (if triggered e s r
      then s\<lparr>moduleCache := moduleCache_delete e (moduleCache s) (resolvedPath e s r),
             failedLocationInvalidated :=
               failedLocationInvalidated s \<union>
                 createGetCanonicalFileName (hostCaseSensitive e) ` owningFiles s r\<rparr>
      else s)"
  using assms
  by (auto simp: invalidate_visit_def triggered_def resolvedPath_def owningFiles_def
      checkLocations_eq split: option.splits)

lemma sweep_reads:
  "triggered e (s\<lparr>moduleCache := M, failedLocationInvalidated := F\<rparr>) r = triggered e s r"
  "resolvedPath e (s\<lparr>moduleCache := M, failedLocationInvalidated := F\<rparr>) r = resolvedPath e s r"
  "owningFiles (s\<lparr>moduleCache := M, failedLocationInvalidated := F\<rparr>) r = owningFiles s r"
proof -
  have obj: "objectOf e (s\<lparr>moduleCache := M, failedLocationInvalidated := F\<rparr>) r' =
               objectOf e s r'" for r'
    by (simp add: objectOf_def split: ObjectRef.splits)
  show "triggered e (s\<lparr>moduleCache := M, failedLocationInvalidated := F\<rparr>) r = triggered e s r"
    by (simp add: triggered_def obj split: option.splits)
  show "resolvedPath e (s\<lparr>moduleCache := M, failedLocationInvalidated := F\<rparr>) r =
          resolvedPath e s r"
    by (simp add: resolvedPath_def obj)
  show "owningFiles (s\<lparr>moduleCache := M, failedLocationInvalidated := F\<rparr>) r = owningFiles s r"
    by (simp add: owningFiles_def split: option.splits)
qed

lemma fold_invalidate_eq:
  assumes "list_all (\<lambda>r. filesField s r \<noteq> None) rs"
  shows "fold (invalidate_visit e) rs (s\<lparr>moduleCache := M, failedLocationInvalidated := F\<rparr>) =
           s\<lparr>moduleCache :=
                fold (\<lambda>path mc. moduleCache_delete e mc path)
                  (map (resolvedPath e s) (filter (triggered e s) rs)) M,
              failedLocationInvalidated :=
                F \<union> (\<Union>r \<in> set (filter (triggered e s) rs).
                        createGetCanonicalFileName (hostCaseSensitive e) ` owningFiles s r)\<rparr>"
  using assms
proof (induction rs arbitrary: M F)
  case Nil
  then show ?case by simp
next
  case (Cons r rs)
  let ?s' = "s\<lparr>moduleCache := M, failedLocationInvalidated := F\<rparr>"
  from Cons.prems have fr: "filesField ?s' r \<noteq> None"
    and rest: "list_all (\<lambda>r. filesField s r \<noteq> None) rs"
    by simp_all
  show ?case
  proof (cases "triggered e s r")
    case True
    have "invalidate_visit e r ?s' =
            s\<lparr>moduleCache := moduleCache_delete e M (resolvedPath e s r),
              failedLocationInvalidated :=
                F \<union> createGetCanonicalFileName (hostCaseSensitive e) ` owningFiles s r\<rparr>"
      using True by (simp add: invalidate_visit_eq [OF fr] sweep_reads)
    then show ?thesis
      using True by (simp add: Cons.IH [OF rest] Un_assoc)
  next
    case False
    have "invalidate_visit e r ?s' = ?s'"
      using False by (simp add: invalidate_visit_eq [OF fr] sweep_reads)
    then show ?thesis
      using False by (simp add: Cons.IH [OF rest])
  qed
qed

lemma containingFilesWhere_filter:
  "containingFilesWhere e P m \<union> containingFilesWhere e Q (filter (\<lambda>(k, v). \<not> P k v) m) =
     containingFilesWhere e (\<lambda>k v. P k v \<or> Q k v) m"
  by (auto simp: containingFilesWhere_def)

lemma fold_delete_eq:
  assumes "cache_wf e mc"
  shows "fold (\<lambda>path mc. moduleCache_delete e mc path) paths mc =
           mc\<lparr>cache := filter (\<lambda>(key, val). \<not> list_ex (\<lambda>path. resolvesTo e path val) paths)
                         (cache mc),
              pendingInvalidations := pendingInvalidations mc \<union>
                containingFilesWhere e (\<lambda>key val. list_ex (\<lambda>path. resolvesTo e path val) paths)
                  (cache mc)\<rparr>"
  using assms
proof (induction paths arbitrary: mc)
  case Nil
  then show ?case by (simp add: containingFilesWhere_def)
next
  case (Cons p paths)
  let ?mc1 = "moduleCache_delete e mc p"
  have wf1: "cache_wf e ?mc1" by (rule cache_wf_delete [OF Cons.prems])
  have c1: "cache ?mc1 = filter (\<lambda>(key, val). \<not> resolvesTo e p val) (cache mc)"
    and p1: "pendingInvalidations ?mc1 = pendingInvalidations mc \<union>
               containingFilesWhere e (\<lambda>key val. resolvesTo e p val) (cache mc)"
    by (simp_all add: moduleCache_delete_eq [OF Cons.prems])
  have f: "filter (\<lambda>(key, val). \<not> list_ex (\<lambda>path. resolvesTo e path val) paths) (cache ?mc1) =
           filter (\<lambda>(key, val). \<not> list_ex (\<lambda>path. resolvesTo e path val) (p # paths)) (cache mc)"
    unfolding c1 filter_filter by (rule filter_cong) auto
  have u: "pendingInvalidations ?mc1 \<union>
             containingFilesWhere e (\<lambda>key val. list_ex (\<lambda>path. resolvesTo e path val) paths)
               (cache ?mc1) =
           pendingInvalidations mc \<union>
             containingFilesWhere e
               (\<lambda>key val. list_ex (\<lambda>path. resolvesTo e path val) (p # paths)) (cache mc)"
    unfolding p1 c1 Un_assoc
    by (simp add: containingFilesWhere_filter [where P = "\<lambda>k v. resolvesTo e p v"])
  have "fold (\<lambda>path mc. moduleCache_delete e mc path) (p # paths) mc =
          fold (\<lambda>path mc. moduleCache_delete e mc path) paths ?mc1"
    by simp
  also have "\<dots> = ?mc1\<lparr>cache :=
        filter (\<lambda>(key, val). \<not> list_ex (\<lambda>path. resolvesTo e path val) paths) (cache ?mc1),
      pendingInvalidations := pendingInvalidations ?mc1 \<union>
        containingFilesWhere e (\<lambda>key val. list_ex (\<lambda>path. resolvesTo e path val) paths)
          (cache ?mc1)\<rparr>"
    by (rule Cons.IH [OF wf1])
  also have "\<dots> = mc\<lparr>cache :=
        filter (\<lambda>(key, val). \<not> list_ex (\<lambda>path. resolvesTo e path val) (p # paths)) (cache mc),
      pendingInvalidations := pendingInvalidations mc \<union>
        containingFilesWhere e (\<lambda>key val. list_ex (\<lambda>path. resolvesTo e path val) (p # paths))
          (cache mc)\<rparr>"
    unfolding f u by (simp add: moduleCache_delete_eq [OF Cons.prems])
  finally show ?case .
qed

text \<open>
  C4. \<^verbatim>\<open>invalidateFailedLocationResolution\<close> goes through every tracked object. Those
  whose resolved module is defined and one of whose failed lookup locations is pending a
  failed-location check are the triggered ones. The call deletes exactly the cache
  entries whose record resolves to the resolved path of a triggered object (their
  containing files become pending invalidations), adds every owning containing file of
  a triggered object to the invalidated set, so that
  \<^verbatim>\<open>mightHaveInvalidatedResolutions\<close> reports it, and leaves the pending failed-location
  set empty.
\<close>

theorem sweep_invalidates_triggered_records:
  assumes wf: "cache_wf e (moduleCache s)" and tracked: "tracked_wf s"
  shows "cache (moduleCache (invalidateFailedLocationResolution e s)) =
           filter (\<lambda>(key, val).
                    \<not> list_ex (\<lambda>r. resolvesTo e (resolvedPath e s r) val)
                        (filter (triggered e s) (resolutionWithFailedLookup s)))
             (cache (moduleCache s)) \<and>
         pendingInvalidations (moduleCache (invalidateFailedLocationResolution e s)) =
           pendingInvalidations (moduleCache s) \<union>
             containingFilesWhere e
               (\<lambda>key val. list_ex (\<lambda>r. resolvesTo e (resolvedPath e s r) val)
                             (filter (triggered e s) (resolutionWithFailedLookup s)))
               (cache (moduleCache s)) \<and>
         failedLocationInvalidated (invalidateFailedLocationResolution e s) =
           failedLocationInvalidated s \<union>
             (\<Union>r \<in> set (filter (triggered e s) (resolutionWithFailedLookup s)).
                createGetCanonicalFileName (hostCaseSensitive e) ` owningFiles s r) \<and>
         (\<forall>r \<in> set (filter (triggered e s) (resolutionWithFailedLookup s)).
            \<forall>file \<in> owningFiles s r.
              mightHaveInvalidatedResolutions e (invalidateFailedLocationResolution e s) file) \<and>
         pendingFailedLocationCheck (invalidateFailedLocationResolution e s) = {}"
proof -
  let ?T = "filter (triggered e s) (resolutionWithFailedLookup s)"
  let ?s' = "invalidateFailedLocationResolution e s"
  have s: "s = s\<lparr>moduleCache := moduleCache s,
                  failedLocationInvalidated := failedLocationInvalidated s\<rparr>"
    by simp
  have "fold (invalidate_visit e) (resolutionWithFailedLookup s) s =
          s\<lparr>moduleCache :=
               fold (\<lambda>path mc. moduleCache_delete e mc path) (map (resolvedPath e s) ?T)
                 (moduleCache s),
             failedLocationInvalidated :=
               failedLocationInvalidated s \<union>
                 (\<Union>r \<in> set ?T.
                    createGetCanonicalFileName (hostCaseSensitive e) ` owningFiles s r)\<rparr>"
    by (subst s, rule fold_invalidate_eq) (use tracked in \<open>simp add: tracked_wf_def\<close>)
  then have s': "?s' =
          s\<lparr>moduleCache :=
               fold (\<lambda>path mc. moduleCache_delete e mc path) (map (resolvedPath e s) ?T)
                 (moduleCache s),
             failedLocationInvalidated :=
               failedLocationInvalidated s \<union>
                 (\<Union>r \<in> set ?T.
                    createGetCanonicalFileName (hostCaseSensitive e) ` owningFiles s r),
             pendingFailedLocationCheck := {}\<rparr>"
    by (simp add: invalidateFailedLocationResolution_def)
  have ex: "list_ex (\<lambda>path. resolvesTo e path val) (map (resolvedPath e s) ?T) =
            list_ex (\<lambda>r. resolvesTo e (resolvedPath e s r) val) ?T" for val
    by (simp add: list_ex_iff)
  have 1: "cache (moduleCache ?s') =
             filter (\<lambda>(key, val). \<not> list_ex (\<lambda>r. resolvesTo e (resolvedPath e s r) val) ?T)
               (cache (moduleCache s))"
    by (simp add: s' fold_delete_eq [OF wf] ex)
  have 2: "pendingInvalidations (moduleCache ?s') =
             pendingInvalidations (moduleCache s) \<union>
               containingFilesWhere e
                 (\<lambda>key val. list_ex (\<lambda>r. resolvesTo e (resolvedPath e s r) val) ?T)
                 (cache (moduleCache s))"
    by (simp add: s' fold_delete_eq [OF wf] ex)
  have 3: "failedLocationInvalidated ?s' =
             failedLocationInvalidated s \<union>
               (\<Union>r \<in> set ?T.
                  createGetCanonicalFileName (hostCaseSensitive e) ` owningFiles s r)"
    by (simp add: s')
  have 4: "\<forall>r \<in> set ?T. \<forall>file \<in> owningFiles s r. mightHaveInvalidatedResolutions e ?s' file"
    unfolding mightHaveInvalidatedResolutions_def FileSet_has_def 3 by blast
  have 5: "pendingFailedLocationCheck ?s' = {}"
    by (simp add: s')
  show ?thesis using 1 2 3 4 5 by (intro conjI)
qed

lemmas sweep_defs =
  invalidateFailedLocationResolution_def invalidate_visit_def
  deleteUnresolvedResolutionsFromCache_def moduleCache_deleteUnresolvedResolutionsFromCache_def
  deleteUnresolved_visit_def moduleCache_delete_def delete_visit_def FileMap_delete_def
  fileNameWithoutEnding_def getCanonicalFileName_def getLastPartOfPath_def js_split_def
  pop_or_empty_def shift_or_empty_def second_or_empty_def moduleNameOfKey_def
  containingFileOfKey_def str_includes_def sublist_code FileSet_add_def FileSet_has_def
  mightHaveInvalidatedResolutions_def oneOfResolvedModuleChanged_def

theorem sweep_invalidates_triggered_records_witness:
  "cache_wf (demoEnv []) (moduleCache sweptLoader) \<and>
   tracked_wf sweptLoader \<and>
   cache (moduleCache sweptLoader) =
     [(''/proj/a.ts:::lib'',
         Some \<lparr>resolvedFileName = ''/proj/node_modules/lib/index.ts'', extension = ''.ts'',
               isExternalLibraryImport = Some True\<rparr>),
      (''/proj/a.ts:::./Widget'', None)] \<and>
   filter (triggered (demoEnv []) sweptLoader) (resolutionWithFailedLookup sweptLoader) =
     [HostObject 1] \<and>
   owningFiles sweptLoader (HostObject 1) = {''/proj/a.ts''} \<and>
   cache (moduleCache (invalidateFailedLocationResolution (demoEnv []) sweptLoader)) =
     [(''/proj/a.ts:::./Widget'', None)] \<and>
   failedLocationInvalidated (invalidateFailedLocationResolution (demoEnv []) sweptLoader) =
     {''/proj/a.ts''} \<and>
   mightHaveInvalidatedResolutions (demoEnv [])
     (invalidateFailedLocationResolution (demoEnv []) sweptLoader) ''/proj/a.ts'' \<and>
   pendingFailedLocationCheck (invalidateFailedLocationResolution (demoEnv []) sweptLoader) = {}"
proof -
  let ?e = "demoEnv []"
  have c: "cache (moduleCache sweptLoader) =
     [(''/proj/a.ts:::lib'',
         Some \<lparr>resolvedFileName = ''/proj/node_modules/lib/index.ts'', extension = ''.ts'',
               isExternalLibraryImport = Some True\<rparr>),
      (''/proj/a.ts:::./Widget'', None)]"
    by (simp add: sweptLoader_def demo_defs sweep_defs)
  have wf: "cache_wf ?e (moduleCache sweptLoader)"
    by (simp add: cache_wf_def c) (simp add: getCanonicalFileName_def demo_defs)
  have rs: "resolutionWithFailedLookup sweptLoader = [HostObject 1, HostObject 0]"
    by (simp add: sweptLoader_def demo_defs sweep_defs)
  have ff: "filesField sweptLoader (HostObject 1) = Some 0"
    "filesField sweptLoader (HostObject 0) = Some 1"
    by (simp_all add: sweptLoader_def demo_defs sweep_defs)
  have tracked: "tracked_wf sweptLoader"
    using ff by (simp add: tracked_wf_def rs)
  have pend: "pendingFailedLocationCheck sweptLoader = {''/proj/lib.ts''}"
    by (simp add: sweptLoader_def demo_defs sweep_defs)
  have t1: "triggered ?e sweptLoader (HostObject 1)"
    and t0: "\<not> triggered ?e sweptLoader (HostObject 0)"
    using pend by (simp_all add: triggered_def FileSet_has_def demo_defs)
  have T: "filter (triggered ?e sweptLoader) (resolutionWithFailedLookup sweptLoader) =
             [HostObject 1]"
    using t1 t0 by (simp add: rs)
  have own: "owningFiles sweptLoader (HostObject 1) = {''/proj/a.ts''}"
    using ff by (simp add: owningFiles_def) (simp add: sweptLoader_def demo_defs sweep_defs)
  have rp: "resolvedPath ?e sweptLoader (HostObject 1) = ''/proj/node_modules/lib/index.ts''"
    by (simp add: resolvedPath_def objectOf_def) (simp add: demo_defs)
  have fl: "failedLocationInvalidated sweptLoader = {}"
    by (simp add: sweptLoader_def demo_defs sweep_defs)
  note t = sweep_invalidates_triggered_records [OF wf tracked]
  have 1: "cache (moduleCache (invalidateFailedLocationResolution ?e sweptLoader)) =
             [(''/proj/a.ts:::./Widget'', None)]"
    unfolding t [THEN conjunct1] T c
    using rp by (simp add: resolvesTo_def)
  have 3: "failedLocationInvalidated (invalidateFailedLocationResolution ?e sweptLoader) =
             {''/proj/a.ts''}"
    unfolding t [THEN conjunct2, THEN conjunct2, THEN conjunct1] T
    using own fl by (simp add: demo_defs)
  have 4: "mightHaveInvalidatedResolutions ?e
             (invalidateFailedLocationResolution ?e sweptLoader) ''/proj/a.ts''"
    using t [THEN conjunct2, THEN conjunct2, THEN conjunct2, THEN conjunct1] own
    by (simp add: T)
  have 5: "pendingFailedLocationCheck (invalidateFailedLocationResolution ?e sweptLoader) = {}"
    by (rule t [THEN conjunct2, THEN conjunct2, THEN conjunct2, THEN conjunct2])
  show ?thesis using wf tracked c T own 1 3 4 5 by (intro conjI)
qed

section \<open>Reachable states are well formed\<close>

lemma tracker_wf_tracked: "tracker_wf s \<Longrightarrow> tracked_wf s"
  by (simp add: tracker_wf_def tracked_wf_def list_all_iff)

lemma removal_stable_cache_wf: "removal_stable (cache_wf e)"
  unfolding removal_stable_def cache_wf_def FileMap_delete_def AList.delete_eq
  by (auto simp: list_all_iff intro: distinct_map_filter)

lemma allocatedIn_Suc: "allocatedIn n r \<Longrightarrow> allocatedIn (Suc n) r"
  by (cases r) simp_all

lemma allocatedIn_fresh: "allocatedIn n r \<Longrightarrow> r \<noteq> RemappedObject n"
  by (cases r) simp_all

lemma resolveModuleName_cases:
  "(\<exists>h. resolveModuleName e s name c sf i red opt = (HostObject h, s)) \<or>
   (\<exists>obj f. resolveModuleName e s name c sf i red opt =
      (RemappedObject (nextRemapped s),
       s\<lparr>remappedObject := (remappedObject s)(nextRemapped s := obj),
         nextRemapped := Suc (nextRemapped s),
         filesField := (filesField s)(RemappedObject (nextRemapped s) := f)\<rparr>))"
  by (auto simp: resolveModuleName_def Let_def split: option.splits)

lemma resolveModuleName_tracker:
  assumes "tracker_wf s"
  shows "tracker_wf (snd (resolveModuleName e s name c sf i red opt)) \<and>
         allocatedIn (nextRemapped (snd (resolveModuleName e s name c sf i red opt)))
           (fst (resolveModuleName e s name c sf i red opt))"
proof -
  from resolveModuleName_cases [of e s name c sf i red opt]
  consider (host) h where "resolveModuleName e s name c sf i red opt = (HostObject h, s)"
    | (copy) obj f where "resolveModuleName e s name c sf i red opt =
        (RemappedObject (nextRemapped s),
         s\<lparr>remappedObject := (remappedObject s)(nextRemapped s := obj),
           nextRemapped := Suc (nextRemapped s),
           filesField := (filesField s)(RemappedObject (nextRemapped s) := f)\<rparr>)"
    by blast
  then show ?thesis
  proof cases
    case host
    then show ?thesis using assms by simp
  next
    case copy
    have "filesField s r \<noteq> None \<and> allocatedIn (nextRemapped s) r \<Longrightarrow>
            ((filesField s)(RemappedObject (nextRemapped s) := f)) r \<noteq> None \<and>
            allocatedIn (Suc (nextRemapped s)) r" for r
      using allocatedIn_fresh [of "nextRemapped s" r] by (simp add: allocatedIn_Suc)
    then show ?thesis
      using assms by (simp add: copy tracker_wf_def list_all_iff)
  qed
qed

lemma cacheResolutionWithFailedLookup_cases:
  "cacheResolutionWithFailedLookup e s r c = s \<or>
   (\<exists>a F. cacheResolutionWithFailedLookup e s r c =
      s\<lparr>filesField := (filesField s)(r := Some a),
        fileSet := F,
        nextFileSet := (case filesField s r of None \<Rightarrow> Suc (nextFileSet s)
                        | Some b \<Rightarrow> nextFileSet s),
        resolutionWithFailedLookup :=
          (if r \<in> set (resolutionWithFailedLookup s) then resolutionWithFailedLookup s
           else resolutionWithFailedLookup s @ [r])\<rparr>)"
proof (cases "failedLookupLocations (objectOf e s r)")
  case None
  then show ?thesis by (simp add: cacheResolutionWithFailedLookup_def)
next
  case (Some locations)
  show ?thesis
  proof (cases "locations = []")
    case True
    then show ?thesis by (simp add: cacheResolutionWithFailedLookup_def Some)
  next
    case False
    show ?thesis
    proof (cases "filesField s r")
      case None
      have "cacheResolutionWithFailedLookup e s r c =
        s\<lparr>filesField := (filesField s)(r := Some (nextFileSet s)),
          fileSet := (fileSet s)(nextFileSet s := {c}),
          nextFileSet := Suc (nextFileSet s),
          resolutionWithFailedLookup :=
            (if r \<in> set (resolutionWithFailedLookup s) then resolutionWithFailedLookup s
             else resolutionWithFailedLookup s @ [r])\<rparr>"
        using False by (simp add: cacheResolutionWithFailedLookup_def Some None)
      then show ?thesis by (simp add: None) blast
    next
      case (Some a)
      have fs: "(filesField s)(r := Some a) = filesField s"
        using Some by (simp add: fun_upd_idem_iff)
      have "cacheResolutionWithFailedLookup e s r c =
        s\<lparr>filesField := (filesField s)(r := Some a),
          fileSet := (fileSet s)(a := insert c (fileSet s a)),
          nextFileSet := nextFileSet s,
          resolutionWithFailedLookup :=
            (if r \<in> set (resolutionWithFailedLookup s) then resolutionWithFailedLookup s
             else resolutionWithFailedLookup s @ [r])\<rparr>"
        using False \<open>failedLookupLocations (objectOf e s r) = Some locations\<close>
        by (simp add: cacheResolutionWithFailedLookup_def Some fs)
      then show ?thesis by (simp add: Some) blast
    qed
  qed
qed

lemma cacheResolutionWithFailedLookup_tracker:
  assumes "tracker_wf s" and "allocatedIn (nextRemapped s) r"
  shows "tracker_wf (cacheResolutionWithFailedLookup e s r c)"
proof -
  from cacheResolutionWithFailedLookup_cases [of e s r c]
  consider (same) "cacheResolutionWithFailedLookup e s r c = s"
    | (added) a F where "cacheResolutionWithFailedLookup e s r c =
      s\<lparr>filesField := (filesField s)(r := Some a),
        fileSet := F,
        nextFileSet := (case filesField s r of None \<Rightarrow> Suc (nextFileSet s)
                        | Some b \<Rightarrow> nextFileSet s),
        resolutionWithFailedLookup :=
          (if r \<in> set (resolutionWithFailedLookup s) then resolutionWithFailedLookup s
           else resolutionWithFailedLookup s @ [r])\<rparr>"
    by blast
  then show ?thesis
  proof cases
    case same
    then show ?thesis using assms by simp
  next
    case added
    show ?thesis
      using assms by (simp add: added tracker_wf_def list_all_iff)
  qed
qed

lemma tracker_wf_moduleCache: "tracker_wf (s\<lparr>moduleCache := M\<rparr>) = tracker_wf s"
  by (simp add: tracker_wf_def)

lemma resolveOne_wf:
  assumes "cache_wf e (moduleCache s) \<and> tracker_wf s"
  shows "cache_wf e (moduleCache (snd (resolveOne e c red opt sf m i s))) \<and>
         tracker_wf (snd (resolveOne e c red opt sf m i s))"
proof (cases "moduleCache_has e (moduleCache s) m c")
  case True
  then show ?thesis using assms by (simp add: resolveOne_hit)
next
  case False
  have "cache_wf e (moduleCache (snd (resolveOne e c red opt sf m i s)))"
    using assms by (simp add: resolveOne_miss(2) [OF False] cache_wf_set)
  moreover have "tracker_wf (snd (resolveOne e c red opt sf m i s))"
    using assms False resolveModuleName_tracker [of s e m c sf i red opt]
    by (simp add: resolveOne_def Let_def split_beta tracker_wf_moduleCache
        cacheResolutionWithFailedLookup_tracker)
  ultimately show ?thesis ..
qed

lemma checkLocations_tracker:
  "tracker_wf (checkLocations e rm files locations s) = tracker_wf s"
  by (simp add: checkLocations_eq tracker_wf_def)

lemma invalidate_visit_tracker: "tracker_wf (invalidate_visit e r s) = tracker_wf s"
  by (simp add: invalidate_visit_def checkLocations_tracker split: option.splits)

lemma invalidateFailedLocationResolution_tracker:
  "tracker_wf (invalidateFailedLocationResolution e s) = tracker_wf s"
proof -
  have "tracker_wf (fold (invalidate_visit e) rs s) = tracker_wf s" for rs
    by (induction rs arbitrary: s) (simp_all add: invalidate_visit_tracker)
  moreover have "tracker_wf (s'\<lparr>pendingFailedLocationCheck := {}\<rparr>) = tracker_wf s'" for s'
    by (simp add: tracker_wf_def)
  ultimately show ?thesis
    by (simp add: invalidateFailedLocationResolution_def)
qed

lemma apply_event_wf:
  assumes "sysCaseSensitive (fst ev) = sysCaseSensitive e"
    and "cache_wf e (moduleCache s) \<and> tracker_wf s"
  shows "cache_wf e (moduleCache (apply_event ev s)) \<and> tracker_wf (apply_event ev s)"
proof -
  obtain e' a where ev: "ev = (e', a)" by (cases ev)
  from assms(1) have cong: "cache_wf e' mc = cache_wf e mc" for mc
    by (simp add: ev cache_wf_def getCanonicalFileName_def)
  show ?thesis
  proof (cases a)
    case (ResolveModuleNames names c red opt sf)
    have "cache_wf e' (moduleCache (snd (mapFrom (resolveOne e' c red opt sf) 0 names s))) \<and>
          tracker_wf (snd (mapFrom (resolveOne e' c red opt sf) 0 names s))"
    proof (rule mapFrom_invariant
            [where P = "\<lambda>s. cache_wf e' (moduleCache s) \<and> tracker_wf s"])
      show "cache_wf e' (moduleCache s) \<and> tracker_wf s"
        using assms(2) by (simp add: cong)
    next
      fix m i s0
      assume "cache_wf e' (moduleCache s0) \<and> tracker_wf s0"
      then show "cache_wf e' (moduleCache (snd (resolveOne e' c red opt sf m i s0))) \<and>
                 tracker_wf (snd (resolveOne e' c red opt sf m i s0))"
        by (rule resolveOne_wf)
    qed
    then show ?thesis
      by (simp add: ev ResolveModuleNames resolveModuleNames_def cong)
  next
    case (DeleteFromModuleCache p)
    then show ?thesis
      using assms(2)
      by (simp add: ev deleteFromModuleCache_def tracker_wf_moduleCache
          moduleCache_delete_stable [OF removal_stable_cache_wf])
  next
    case (DeleteUnresolvedResolutionsFromCache p)
    have "tracker_wf (s\<lparr>moduleCache := M, pendingFailedLocationCheck := F\<rparr>) = tracker_wf s"
      for M F
      by (simp add: tracker_wf_def)
    then show ?thesis
      using assms(2)
      by (simp add: ev DeleteUnresolvedResolutionsFromCache
          deleteUnresolvedResolutionsFromCache_def
          moduleCache_deleteUnresolved_stable [OF removal_stable_cache_wf])
  next
    case InvalidateFailedLocationResolution
    then show ?thesis
      using assms(2)
      by (simp add: ev invalidateFailedLocationResolution_tracker
          invalidateFailedLocationResolution_stable [OF removal_stable_cache_wf])
  next
    case ClearPendingInvalidations
    then show ?thesis
      using assms(2)
      by (simp add: ev clearPendingInvalidations_def moduleCache_clearPendingInvalidations_def
          cache_wf_def tracker_wf_def)
  qed
qed

text \<open>
  Every state reached from a new loader on a host with one case-sensitivity policy has a
  well-formed cache and tracker.
\<close>

lemma run_wf:
  assumes "list_all (\<lambda>ev. sysCaseSensitive (fst ev) = sysCaseSensitive e) evs"
    and "cache_wf e (moduleCache s) \<and> tracker_wf s"
  shows "cache_wf e (moduleCache (run evs s)) \<and> tracker_wf (run evs s)"
  using assms unfolding run_def
  by (induction evs arbitrary: s) (simp_all add: apply_event_wf)

lemma reachable_wf:
  assumes "list_all (\<lambda>ev. sysCaseSensitive (fst ev) = sysCaseSensitive e) evs"
  shows "cache_wf e (moduleCache (run evs createSvelteModuleLoader))"
    and "tracked_wf (run evs createSvelteModuleLoader)"
proof -
  have "cache_wf e (moduleCache createSvelteModuleLoader) \<and> tracker_wf createSvelteModuleLoader"
    by (simp add: createSvelteModuleLoader_def cache_wf_new tracker_wf_def)
  from run_wf [OF assms this]
  show "cache_wf e (moduleCache (run evs createSvelteModuleLoader))"
    and "tracked_wf (run evs createSvelteModuleLoader)"
    by (simp_all add: tracker_wf_tracked)
qed

end
